theory Spec2Isabelle
  imports Main "HOL-Library.Monad_Syntax" "HOL-Library.Sublist"
begin

section \<open>Python values\<close>

text \<open>
  The editor is a Python program. Its integers are unbounded (\<open>int\<close>), its strings are
  sequences of code points; a line is modelled as a \<open>string\<close>, every character being a
  code point below 256. An operation that raises \<open>IndexError\<close> returns \<open>None\<close>.
\<close>

definition norm_bound :: "nat \<Rightarrow> int \<Rightarrow> nat" where
  \<comment> \<open>how a slice bound (and the index of \<open>list.insert\<close>) is brought into \<open>0..n\<close>\<close>
  "norm_bound n i = (if i < 0 then nat (max 0 (int n + i)) else min n (nat i))"

definition slice_to :: "'a list \<Rightarrow> int \<Rightarrow> 'a list" where
  \<comment> \<open>\<open>xs[:i]\<close>\<close>
  "slice_to xs i = take (norm_bound (length xs) i) xs"

definition slice_from :: "'a list \<Rightarrow> int \<Rightarrow> 'a list" where
  \<comment> \<open>\<open>xs[i:]\<close>\<close>
  "slice_from xs i = drop (norm_bound (length xs) i) xs"

definition py_pos :: "nat \<Rightarrow> int \<Rightarrow> nat option" where
  \<comment> \<open>the position an index denotes; negative indices count from the end\<close>
  "py_pos n i =
     (let j = (if i < 0 then int n + i else i)
      in if 0 \<le> j \<and> j < int n then Some (nat j) else None)"

definition py_index :: "'a list \<Rightarrow> int \<Rightarrow> 'a option" where
  \<comment> \<open>\<open>xs[i]\<close>\<close>
  "py_index xs i = map_option (\<lambda>j. xs ! j) (py_pos (length xs) i)"

definition py_assign :: "'a list \<Rightarrow> int \<Rightarrow> 'a \<Rightarrow> 'a list option" where
  \<comment> \<open>\<open>xs[i] = v\<close>\<close>
  "py_assign xs i v = map_option (\<lambda>j. xs[j := v]) (py_pos (length xs) i)"

definition py_del :: "'a list \<Rightarrow> int \<Rightarrow> 'a list option" where
  \<comment> \<open>\<open>del xs[i]\<close>\<close>
  "py_del xs i = map_option (\<lambda>j. take j xs @ drop (Suc j) xs) (py_pos (length xs) i)"

definition py_insert :: "'a list \<Rightarrow> int \<Rightarrow> 'a \<Rightarrow> 'a list" where
  \<comment> \<open>\<open>xs.insert(i, v)\<close>\<close>
  "py_insert xs i v =
     (let j = norm_bound (length xs) i in take j xs @ v # drop j xs)"

definition code_point :: "char \<Rightarrow> nat" where
  "code_point c = of_char c"

definition py_isspace :: "char \<Rightarrow> bool" where
  \<comment> \<open>\<open>str.isspace\<close> on one code point below 256\<close>
  "py_isspace c =
     (let n = code_point c
      in (9 \<le> n \<and> n \<le> 13) \<or> (28 \<le> n \<and> n \<le> 32) \<or> n = 133 \<or> n = 160)"

definition py_isalnum :: "char \<Rightarrow> bool" where
  \<comment> \<open>\<open>str.isalnum\<close> on one code point below 256\<close>
  "py_isalnum c =
     (let n = code_point c
      in (48 \<le> n \<and> n \<le> 57) \<or> (65 \<le> n \<and> n \<le> 90) \<or> (97 \<le> n \<and> n \<le> 122)
         \<or> n = 170 \<or> n = 178 \<or> n = 179 \<or> n = 181 \<or> n = 185 \<or> n = 186
         \<or> (188 \<le> n \<and> n \<le> 190) \<or> (192 \<le> n \<and> n \<le> 214)
         \<or> (216 \<le> n \<and> n \<le> 246) \<or> (248 \<le> n \<and> n \<le> 255))"

definition lower_char :: "char \<Rightarrow> char" where
  "lower_char c =
     (let n = code_point c
      in if (65 \<le> n \<and> n \<le> 90) \<or> (192 \<le> n \<and> n \<le> 222 \<and> n \<noteq> 215)
         then char_of (n + 32) else c)"

definition py_lower :: "string \<Rightarrow> string" where
  \<comment> \<open>\<open>s.lower()\<close>\<close>
  "py_lower s = map lower_char s"

definition py_lstrip :: "string \<Rightarrow> string" where
  \<comment> \<open>\<open>s.lstrip()\<close>\<close>
  "py_lstrip s = dropWhile py_isspace s"

definition py_strip :: "string \<Rightarrow> string" where
  \<comment> \<open>\<open>s.strip()\<close>\<close>
  "py_strip s = rev (dropWhile py_isspace (rev (dropWhile py_isspace s)))"

definition newline :: string where
  "newline = [CHR 0x0A]"

section \<open>Document model\<close>

record editor_state =
  content :: "string list"
  cursor_y :: int
  cursor_x :: int
  scroll_y :: int
  cutbuf :: string
  selection_start :: "(int \<times> int) option"
  selection_end :: "(int \<times> int) option"
  insert_mode :: bool
  is_modified :: bool
  filepath :: string
  language :: "string option"
  message :: string
  shift_pressed :: bool

definition update_selection :: "editor_state \<Rightarrow> editor_state" where
  "update_selection state =
     (let state1 = (if selection_start state = None
                    then state\<lparr>selection_start := Some (cursor_y state, cursor_x state)\<rparr>
                    else state)
      in state1\<lparr>selection_end := Some (cursor_y state1, cursor_x state1)\<rparr>)"

definition clear_selection :: "editor_state \<Rightarrow> editor_state" where
  "clear_selection state = state\<lparr>selection_start := None, selection_end := None\<rparr>"

text \<open>The invariant of the document: at least one line, the cursor on a line and inside it.\<close>

definition cursor_in_bounds :: "editor_state \<Rightarrow> bool" where
  "cursor_in_bounds state =
     (0 \<le> cursor_y state \<and> cursor_y state < int (length (content state)) \<and>
      0 \<le> cursor_x state \<and>
      cursor_x state \<le> int (length (content state ! nat (cursor_y state))))"

section \<open>Commands\<close>

text \<open>
  A command object carries what its constructor received and what \<open>execute\<close> records in
  it for \<open>undo\<close>: the prior cursor, the deleted character, the prior content.
\<close>

datatype command =
    MoveCommand string int int int
      \<comment> \<open>direction, amount, old_y, old_x\<close>
  | InsertCommand string int int
      \<comment> \<open>char, old_y, old_x\<close>
  | BackspaceCommand int int string
      \<comment> \<open>old_y, old_x, deleted_char\<close>
  | DeleteCommand int int string
      \<comment> \<open>old_y, old_x, deleted_char\<close>
  | EnterCommand int int
      \<comment> \<open>old_y, old_x\<close>
  | ReplaceCommand string string bool "string list"
      \<comment> \<open>pattern, replacement, case_sensitive, old_content\<close>
  | FormatCommand "string list"
      \<comment> \<open>old_content\<close>

definition MoveCommand_execute :: "string \<Rightarrow> int \<Rightarrow> editor_state \<Rightarrow> editor_state option" where
  "MoveCommand_execute direction amount state = do {
     state1 \<leftarrow>
       (if direction = ''up'' then
          Some (state\<lparr>cursor_y := max 0 (cursor_y state - amount)\<rparr>)
        else if direction = ''down'' then
          Some (state\<lparr>cursor_y :=
                  min (int (length (content state)) - 1) (cursor_y state + amount)\<rparr>)
        else if direction = ''left'' then
          Some (state\<lparr>cursor_x := max 0 (cursor_x state - amount)\<rparr>)
        else if direction = ''right'' then do {
          line \<leftarrow> py_index (content state) (cursor_y state);
          Some (state\<lparr>cursor_x := min (int (length line)) (cursor_x state + amount)\<rparr>)
        }
        else Some state);
     line \<leftarrow> py_index (content state1) (cursor_y state1);
     let state2 = state1\<lparr>cursor_x := min (cursor_x state1) (int (length line))\<rparr>;
     Some (if shift_pressed state2 then update_selection state2 else clear_selection state2)
   }"

definition MoveCommand_undo :: "int \<Rightarrow> int \<Rightarrow> editor_state \<Rightarrow> editor_state option" where
  "MoveCommand_undo old_y old_x state = Some (state\<lparr>cursor_y := old_y, cursor_x := old_x\<rparr>)"

definition InsertCommand_execute :: "string \<Rightarrow> editor_state \<Rightarrow> editor_state option" where
  "InsertCommand_execute char state = do {
     line \<leftarrow> py_index (content state) (cursor_y state);
     let new_line =
       (if insert_mode state then
          slice_to line (cursor_x state) @ char @ slice_from line (cursor_x state)
        else if cursor_x state < int (length line) then
          slice_to line (cursor_x state) @ char @ slice_from line (cursor_x state + 1)
        else
          slice_to line (cursor_x state) @ char);
     content1 \<leftarrow> py_assign (content state) (cursor_y state) new_line;
     Some (clear_selection
            (state\<lparr>content := content1, cursor_x := cursor_x state + 1, is_modified := True\<rparr>))
   }"

definition InsertCommand_undo :: "int \<Rightarrow> int \<Rightarrow> editor_state \<Rightarrow> editor_state option" where
  "InsertCommand_undo old_y old_x state = do {
     line \<leftarrow> py_index (content state) (cursor_y state);
     content1 \<leftarrow> py_assign (content state) (cursor_y state)
       (slice_to line (cursor_x state - 1) @ slice_from line (cursor_x state));
     Some (state\<lparr>content := content1, cursor_y := old_y, cursor_x := old_x\<rparr>)
   }"

definition BackspaceCommand_execute ::
  "string \<Rightarrow> editor_state \<Rightarrow> (string \<times> editor_state) option" where
  \<comment> \<open>the first argument and the first result are the command's \<open>deleted_char\<close>\<close>
  "BackspaceCommand_execute deleted_char state = do {
     (deleted_char1, state1) \<leftarrow>
       (if cursor_x state > 0 then do {
          line \<leftarrow> py_index (content state) (cursor_y state);
          c \<leftarrow> py_index line (cursor_x state - 1);
          content1 \<leftarrow> py_assign (content state) (cursor_y state)
            (slice_to line (cursor_x state - 1) @ slice_from line (cursor_x state));
          Some ([c], state\<lparr>content := content1, cursor_x := cursor_x state - 1\<rparr>)
        }
        else if cursor_y state > 0 then do {
          prev \<leftarrow> py_index (content state) (cursor_y state - 1);
          line \<leftarrow> py_index (content state) (cursor_y state);
          content1 \<leftarrow> py_assign (content state) (cursor_y state - 1) (prev @ line);
          content2 \<leftarrow> py_del content1 (cursor_y state);
          Some (newline, state\<lparr>content := content2, cursor_x := int (length prev),
                                cursor_y := cursor_y state - 1\<rparr>)
        }
        else Some (deleted_char, state));
     Some (deleted_char1, clear_selection (state1\<lparr>is_modified := True\<rparr>))
   }"

definition BackspaceCommand_undo :: "string \<Rightarrow> editor_state \<Rightarrow> editor_state option" where
  "BackspaceCommand_undo deleted_char state = do {
     line \<leftarrow> py_index (content state) (cursor_y state);
     if deleted_char = newline then do {
       content1 \<leftarrow> py_assign (content state) (cursor_y state)
         (slice_to line (cursor_x state) @ newline @ slice_from line (cursor_x state));
       Some (state\<lparr>content := content1, cursor_y := cursor_y state + 1, cursor_x := 0\<rparr>)
     }
     else do {
       content1 \<leftarrow> py_assign (content state) (cursor_y state)
         (slice_to line (cursor_x state) @ deleted_char @ slice_from line (cursor_x state));
       Some (state\<lparr>content := content1, cursor_x := cursor_x state + 1\<rparr>)
     }
   }"

definition DeleteCommand_execute ::
  "string \<Rightarrow> editor_state \<Rightarrow> (string \<times> editor_state) option" where
  "DeleteCommand_execute deleted_char state = do {
     line \<leftarrow> py_index (content state) (cursor_y state);
     (deleted_char1, state1) \<leftarrow>
       (if cursor_x state < int (length line) then do {
          c \<leftarrow> py_index line (cursor_x state);
          content1 \<leftarrow> py_assign (content state) (cursor_y state)
            (slice_to line (cursor_x state) @ slice_from line (cursor_x state + 1));
          Some ([c], state\<lparr>content := content1\<rparr>)
        }
        else if cursor_y state < int (length (content state)) - 1 then do {
          next \<leftarrow> py_index (content state) (cursor_y state + 1);
          content1 \<leftarrow> py_assign (content state) (cursor_y state) (line @ next);
          content2 \<leftarrow> py_del content1 (cursor_y state + 1);
          Some (newline, state\<lparr>content := content2\<rparr>)
        }
        else Some (deleted_char, state));
     Some (deleted_char1, clear_selection (state1\<lparr>is_modified := True\<rparr>))
   }"

definition DeleteCommand_undo :: "string \<Rightarrow> editor_state \<Rightarrow> editor_state option" where
  "DeleteCommand_undo deleted_char state = do {
     line \<leftarrow> py_index (content state) (cursor_y state);
     if deleted_char = newline then do {
       content1 \<leftarrow> py_assign (content state) (cursor_y state)
         (slice_to line (cursor_x state) @ newline @ slice_from line (cursor_x state));
       Some (state\<lparr>content := content1, cursor_y := cursor_y state + 1, cursor_x := 0\<rparr>)
     }
     else do {
       content1 \<leftarrow> py_assign (content state) (cursor_y state)
         (slice_to line (cursor_x state) @ deleted_char @ slice_from line (cursor_x state));
       Some (state\<lparr>content := content1\<rparr>)
     }
   }"

definition EnterCommand_execute :: "editor_state \<Rightarrow> editor_state option" where
  "EnterCommand_execute state = do {
     line \<leftarrow> py_index (content state) (cursor_y state);
     let indent = int (length line) - int (length (py_lstrip line));
     let indent_str = replicate (nat indent) (CHR '' '');
     let new_line = indent_str @ slice_from line (cursor_x state);
     content1 \<leftarrow> py_assign (content state) (cursor_y state) (slice_to line (cursor_x state));
     let content2 = py_insert content1 (cursor_y state + 1) new_line;
     Some (clear_selection
            (state\<lparr>content := content2, cursor_y := cursor_y state + 1, cursor_x := indent,
                   is_modified := True\<rparr>))
   }"

definition EnterCommand_undo :: "int \<Rightarrow> int \<Rightarrow> editor_state \<Rightarrow> editor_state option" where
  "EnterCommand_undo old_y old_x state = do {
     prev \<leftarrow> py_index (content state) (cursor_y state - 1);
     line \<leftarrow> py_index (content state) (cursor_y state);
     content1 \<leftarrow> py_assign (content state) (cursor_y state - 1) (prev @ line);
     content2 \<leftarrow> py_del content1 (cursor_y state);
     Some (state\<lparr>content := content2, cursor_y := old_y, cursor_x := old_x\<rparr>)
   }"

section \<open>Replace and format\<close>

function replace_scan :: "string \<Rightarrow> string \<Rightarrow> string \<Rightarrow> string" where
  "replace_scan [] old new = []"
| "replace_scan (c # cs) old new =
     (if old \<noteq> [] \<and> prefix old (c # cs)
      then new @ replace_scan (drop (length old) (c # cs)) old new
      else c # replace_scan cs old new)"
  by pat_completeness auto
termination
  by (relation "measure (\<lambda>(s, old, new). length s)") auto

definition py_replace :: "string \<Rightarrow> string \<Rightarrow> string \<Rightarrow> string" where
  \<comment> \<open>\<open>s.replace(old, new)\<close>: the occurrences of \<open>old\<close> left to right, not overlapping;
      an empty \<open>old\<close> matches before every character and at the end\<close>
  "py_replace s old new =
     (if old = [] then new @ concat (map (\<lambda>c. c # new) s) else replace_scan s old new)"

definition replace_text :: "string list \<Rightarrow> string \<Rightarrow> string \<Rightarrow> bool \<Rightarrow> string list" where
  "replace_text content0 pattern0 replacement case_sensitive =
     (let pattern = (if \<not> case_sensitive then py_lower pattern0 else pattern0);
          content = (if \<not> case_sensitive then map py_lower content0 else content0)
      in map (\<lambda>line. py_replace line pattern replacement) content)"

fun py_join :: "string \<Rightarrow> string list \<Rightarrow> string" where
  "py_join sep [] = []"
| "py_join sep [x] = x"
| "py_join sep (x # y # ys) = x @ sep @ py_join sep (y # ys)"

definition is_linebreak :: "char \<Rightarrow> bool" where
  "is_linebreak c =
     (let n = code_point c in (10 \<le> n \<and> n \<le> 13) \<or> (28 \<le> n \<and> n \<le> 30) \<or> n = 133)"

fun splitlines_from :: "string \<Rightarrow> string \<Rightarrow> string list" where
  "splitlines_from cur [] = (if cur = [] then [] else [cur])"
| "splitlines_from cur [c] = (if is_linebreak c then [cur] else [cur @ [c]])"
| "splitlines_from cur (c # d # cs) =
     (if code_point c = 13 \<and> code_point d = 10 then cur # splitlines_from [] cs
      else if is_linebreak c then cur # splitlines_from [] (d # cs)
      else splitlines_from (cur @ [c]) (d # cs))"

definition py_splitlines :: "string \<Rightarrow> string list" where
  \<comment> \<open>\<open>s.splitlines()\<close>\<close>
  "py_splitlines s = splitlines_from [] s"

text \<open>
  The formatters are libraries outside the repository: \<open>autopep8.fix_code\<close> and
  \<open>jsbeautifier.beautify\<close> with its default options. Each is a parameter; \<open>None\<close> is
  the module that cannot be imported.
\<close>

record formatters =
  autopep8_fix_code :: "(string \<Rightarrow> string) option"
  jsbeautifier_beautify :: "(string \<Rightarrow> string) option"

definition format_code :: "formatters \<Rightarrow> string list \<Rightarrow> string option \<Rightarrow> string list" where
  "format_code fm content0 language0 =
     (if language0 = Some ''python'' then
        (case autopep8_fix_code fm of
           Some fix_code \<Rightarrow> py_splitlines (fix_code (py_join newline content0))
         | None \<Rightarrow> content0)
      else if language0 = Some ''javascript'' then
        (case jsbeautifier_beautify fm of
           Some beautify \<Rightarrow> py_splitlines (beautify (py_join newline content0))
         | None \<Rightarrow> content0)
      else content0)"

definition ReplaceCommand_execute ::
  "string \<Rightarrow> string \<Rightarrow> bool \<Rightarrow> editor_state \<Rightarrow> (string list \<times> editor_state) option" where
  \<comment> \<open>the first result is the command's \<open>old_content\<close>\<close>
  "ReplaceCommand_execute pattern replacement case_sensitive state =
     Some (content state,
           state\<lparr>content := replace_text (content state) pattern replacement case_sensitive,
                 is_modified := True\<rparr>)"

definition ReplaceCommand_undo :: "string list \<Rightarrow> editor_state \<Rightarrow> editor_state option" where
  "ReplaceCommand_undo old_content state = Some (state\<lparr>content := old_content\<rparr>)"

definition FormatCommand_execute ::
  "formatters \<Rightarrow> editor_state \<Rightarrow> (string list \<times> editor_state) option" where
  "FormatCommand_execute fm state =
     Some (content state,
           state\<lparr>content := format_code fm (content state) (language state),
                 is_modified := True\<rparr>)"

definition FormatCommand_undo :: "string list \<Rightarrow> editor_state \<Rightarrow> editor_state option" where
  "FormatCommand_undo old_content state = Some (state\<lparr>content := old_content\<rparr>)"

text \<open>
  \<open>command.execute(state)\<close> and \<open>command.undo(state)\<close>: the method of the command's
  class. \<open>execute\<close> returns the command with what it recorded.
\<close>

fun Command_execute :: "formatters \<Rightarrow> command \<Rightarrow> editor_state \<Rightarrow> (command \<times> editor_state) option" where
  "Command_execute fm (MoveCommand direction amount old_y old_x) state =
     map_option (\<lambda>state1. (MoveCommand direction amount (cursor_y state) (cursor_x state), state1))
       (MoveCommand_execute direction amount state)"
| "Command_execute fm (InsertCommand char old_y old_x) state =
     map_option (\<lambda>state1. (InsertCommand char (cursor_y state) (cursor_x state), state1))
       (InsertCommand_execute char state)"
| "Command_execute fm (BackspaceCommand old_y old_x deleted_char) state =
     map_option (\<lambda>(deleted_char1, state1).
         (BackspaceCommand (cursor_y state) (cursor_x state) deleted_char1, state1))
       (BackspaceCommand_execute deleted_char state)"
| "Command_execute fm (DeleteCommand old_y old_x deleted_char) state =
     map_option (\<lambda>(deleted_char1, state1).
         (DeleteCommand (cursor_y state) (cursor_x state) deleted_char1, state1))
       (DeleteCommand_execute deleted_char state)"
| "Command_execute fm (EnterCommand old_y old_x) state =
     map_option (\<lambda>state1. (EnterCommand (cursor_y state) (cursor_x state), state1))
       (EnterCommand_execute state)"
| "Command_execute fm (ReplaceCommand pattern replacement case_sensitive old_content) state =
     map_option (\<lambda>(old_content1, state1).
         (ReplaceCommand pattern replacement case_sensitive old_content1, state1))
       (ReplaceCommand_execute pattern replacement case_sensitive state)"
| "Command_execute fm (FormatCommand old_content) state =
     map_option (\<lambda>(old_content1, state1). (FormatCommand old_content1, state1))
       (FormatCommand_execute fm state)"

fun Command_undo :: "command \<Rightarrow> editor_state \<Rightarrow> editor_state option" where
  "Command_undo (MoveCommand direction amount old_y old_x) state = MoveCommand_undo old_y old_x state"
| "Command_undo (InsertCommand char old_y old_x) state = InsertCommand_undo old_y old_x state"
| "Command_undo (BackspaceCommand old_y old_x deleted_char) state =
     BackspaceCommand_undo deleted_char state"
| "Command_undo (DeleteCommand old_y old_x deleted_char) state =
     DeleteCommand_undo deleted_char state"
| "Command_undo (EnterCommand old_y old_x) state = EnterCommand_undo old_y old_x state"
| "Command_undo (ReplaceCommand pattern replacement case_sensitive old_content) state =
     ReplaceCommand_undo old_content state"
| "Command_undo (FormatCommand old_content) state = FormatCommand_undo old_content state"

section \<open>History\<close>

definition MAX_UNDO :: nat where
  "MAX_UNDO = 100"

text \<open>
  A \<open>deque(maxlen=n)\<close> is a list, oldest entry first. Appending to a full deque discards
  entries from the left.
\<close>

definition keep_last :: "nat \<Rightarrow> 'a list \<Rightarrow> 'a list" where
  "keep_last maxlen ys = drop (length ys - maxlen) ys"

definition deque_append :: "nat \<Rightarrow> 'a list \<Rightarrow> 'a \<Rightarrow> 'a list" where
  "deque_append maxlen xs x = keep_last maxlen (xs @ [x])"

record command_handler =
  undo_stack :: "command list"
  redo_stack :: "command list"

definition new_handler :: command_handler where
  "new_handler = \<lparr>undo_stack = [], redo_stack = []\<rparr>"

definition execute_command ::
  "formatters \<Rightarrow> command \<Rightarrow> command_handler \<times> editor_state \<Rightarrow>
   (command_handler \<times> editor_state) option" where
  "execute_command fm command hs =
     (case hs of (handler, state) \<Rightarrow> do {
        (command1, state1) \<leftarrow> Command_execute fm command state;
        Some (handler\<lparr>undo_stack := deque_append MAX_UNDO (undo_stack handler) command1,
                      redo_stack := []\<rparr>, state1)
      })"

definition undo :: "command_handler \<times> editor_state \<Rightarrow> (command_handler \<times> editor_state) option" where
  "undo hs =
     (case hs of (handler, state) \<Rightarrow>
        if undo_stack handler \<noteq> [] then do {
          let command = last (undo_stack handler);
          state1 \<leftarrow> Command_undo command state;
          Some (handler\<lparr>undo_stack := butlast (undo_stack handler),
                        redo_stack := deque_append MAX_UNDO (redo_stack handler) command\<rparr>,
                state1)
        }
        else Some (handler, state))"

definition redo ::
  "formatters \<Rightarrow> command_handler \<times> editor_state \<Rightarrow> (command_handler \<times> editor_state) option" where
  "redo fm hs =
     (case hs of (handler, state) \<Rightarrow>
        if redo_stack handler \<noteq> [] then do {
          let command = last (redo_stack handler);
          (command1, state1) \<leftarrow> Command_execute fm command state;
          Some (handler\<lparr>redo_stack := butlast (redo_stack handler),
                        undo_stack := deque_append MAX_UNDO (undo_stack handler) command1\<rparr>,
                state1)
        }
        else Some (handler, state))"

text \<open>
  What the input loop does with the history: a key either runs a fresh command, or undoes,
  or redoes.
\<close>

datatype action = Execute command | Undo | Redo

fun perform ::
  "formatters \<Rightarrow> action \<Rightarrow> command_handler \<times> editor_state \<Rightarrow>
   (command_handler \<times> editor_state) option" where
  "perform fm (Execute command) hs = execute_command fm command hs"
| "perform fm Undo hs = undo hs"
| "perform fm Redo hs = redo fm hs"

fun perform_all ::
  "formatters \<Rightarrow> action list \<Rightarrow> command_handler \<times> editor_state \<Rightarrow>
   (command_handler \<times> editor_state) option" where
  "perform_all fm [] hs = Some hs"
| "perform_all fm (a # as) hs = perform fm a hs \<bind> perform_all fm as"

text \<open>
  The insert commands as the history holds them after one character after the other has
  been typed from the cursor \<open>(y, x)\<close>: each has recorded the cursor it started from.
\<close>

fun typed_commands :: "int \<Rightarrow> int \<Rightarrow> string \<Rightarrow> command list" where
  "typed_commands y x [] = []"
| "typed_commands y x (c # cs) = InsertCommand [c] y x # typed_commands y (x + 1) cs"

definition no_formatters :: formatters where
  \<comment> \<open>an installation with neither formatter module\<close>
  "no_formatters = \<lparr>autopep8_fix_code = None, jsbeautifier_beautify = None\<rparr>"

definition initial_state :: "string list \<Rightarrow> string \<Rightarrow> string option \<Rightarrow> editor_state" where
  \<comment> \<open>the state \<open>main\<close> builds for a loaded file\<close>
  "initial_state content0 filepath0 language0 =
     \<lparr>content = content0, cursor_y = 0, cursor_x = 0, scroll_y = 0, cutbuf = [],
      selection_start = None, selection_end = None, insert_mode = True, is_modified = False,
      filepath = filepath0, language = language0, message = [], shift_pressed = False\<rparr>"

text \<open>
  The commands and positions at which \<open>undo\<close> after \<open>execute\<close> gives back the lines and
  the cursor: a move by a non-negative amount; one character inserted in insert mode, or
  at the end of the line in overwrite mode; a backspace or a delete that removes a
  character of the line (other than a line feed), or a delete with nothing to remove;
  a line split when the line has no leading white space; every replace and format.
\<close>

definition cursor_line :: "editor_state \<Rightarrow> string" where
  "cursor_line state = content state ! nat (cursor_y state)"

fun reversible :: "command \<Rightarrow> editor_state \<Rightarrow> bool" where
  "reversible (MoveCommand direction amount old_y old_x) state = (0 \<le> amount)"
| "reversible (InsertCommand char old_y old_x) state =
     (length char = 1 \<and>
      (insert_mode state \<or> cursor_x state = int (length (cursor_line state))))"
| "reversible (BackspaceCommand old_y old_x deleted_char) state =
     (0 < cursor_x state \<and> [cursor_line state ! nat (cursor_x state - 1)] \<noteq> newline)"
| "reversible (DeleteCommand old_y old_x deleted_char) state =
     (if cursor_x state < int (length (cursor_line state))
      then [cursor_line state ! nat (cursor_x state)] \<noteq> newline
      else cursor_y state = int (length (content state)) - 1 \<and> deleted_char = [])"
| "reversible (EnterCommand old_y old_x) state =
     (py_lstrip (cursor_line state) = cursor_line state)"
| "reversible (ReplaceCommand pattern replacement case_sensitive old_content) state = True"
| "reversible (FormatCommand old_content) state = True"

section \<open>Search\<close>

record search_state =
  pattern :: string
  case_sensitive :: bool
  whole_word :: bool
  regex :: bool
  current_match :: int
  matches :: "(int \<times> int) list"
  search_active :: bool
  search_in_selection :: bool
  incremental :: bool
  search_scroll_y :: int
  last_search :: string
  search_history :: "string list"
  history_index :: int

definition new_search_state :: search_state where
  \<comment> \<open>\<open>SearchState()\<close>\<close>
  "new_search_state =
     \<lparr>pattern = [], case_sensitive = True, whole_word = False, regex = False,
      current_match = -1, matches = [], search_active = False, search_in_selection = False,
      incremental = True, search_scroll_y = 0, last_search = [], search_history = [],
      history_index = -1\<rparr>"

definition add_to_history :: "search_state \<Rightarrow> string \<Rightarrow> search_state" where
  "add_to_history st pattern0 =
     (if pattern0 \<noteq> [] \<and> pattern0 \<noteq> last_search st then
        (let history1 = search_history st @ [pattern0]
         in st\<lparr>search_history := history1, last_search := pattern0,
                history_index := int (length history1) - 1\<rparr>)
      else st)"

definition get_previous_search :: "search_state \<Rightarrow> (string option \<times> search_state) option" where
  "get_previous_search st =
     (if history_index st > 0 then do {
        let st1 = st\<lparr>history_index := history_index st - 1\<rparr>;
        entry \<leftarrow> py_index (search_history st1) (history_index st1);
        Some (Some entry, st1)
      }
      else Some (None, st))"

definition get_next_search :: "search_state \<Rightarrow> (string option \<times> search_state) option" where
  "get_next_search st =
     (if history_index st < int (length (search_history st)) - 1 then do {
        let st1 = st\<lparr>history_index := history_index st + 1\<rparr>;
        entry \<leftarrow> py_index (search_history st1) (history_index st1);
        Some (Some entry, st1)
      }
      else Some (None, st))"

text \<open>The patterns of a run of \<open>add_to_history\<close> calls, each non-empty and not the last search.\<close>

fun fresh_patterns :: "string \<Rightarrow> string list \<Rightarrow> bool" where
  "fresh_patterns last0 [] = True"
| "fresh_patterns last0 (p # ps) = (p \<noteq> [] \<and> p \<noteq> last0 \<and> fresh_patterns p ps)"

text \<open>
  The module \<open>re\<close> is a parameter: \<open>re_compile p ignorecase\<close> is the compiled pattern, or
  \<open>None\<close> where \<open>re.compile\<close> raises \<open>re.error\<close>; \<open>re_finditer\<close> gives the spans of the
  matches in a line.
\<close>

record 'r re_module =
  re_compile :: "string \<Rightarrow> bool \<Rightarrow> 'r option"
  re_finditer :: "'r \<Rightarrow> string \<Rightarrow> (int \<times> int) list"

function py_find :: "string \<Rightarrow> string \<Rightarrow> nat \<Rightarrow> nat option" where
  \<comment> \<open>\<open>s.find(sub, start)\<close> for \<open>start \<ge> 0\<close>; \<open>None\<close> is Python's \<open>-1\<close>\<close>
  "py_find s sub start =
     (if length s < start then None
      else if prefix sub (drop start s) then Some start
      else py_find s sub (Suc start))"
  by pat_completeness auto
termination
  by (relation "measure (\<lambda>(s, sub, start). Suc (length s) - start)") auto

definition not_alnum_at :: "string \<Rightarrow> int \<Rightarrow> bool option" where
  \<comment> \<open>\<open>not line[i].isalnum()\<close>\<close>
  "not_alnum_at line i = map_option (\<lambda>c. \<not> py_isalnum c) (py_index line i)"

definition whole_word_at :: "string \<Rightarrow> int \<Rightarrow> int \<Rightarrow> bool option" where
  \<comment> \<open>the test of a match from \<open>start\<close> to \<open>end\<close> in whole-word mode\<close>
  "whole_word_at line start end0 = do {
     before \<leftarrow> (if start = 0 then Some True else not_alnum_at line (start - 1));
     if before then
       (if end0 = int (length line) then Some True else not_alnum_at line end0)
     else Some False
   }"

definition accept_match :: "bool \<Rightarrow> string \<Rightarrow> int \<Rightarrow> int \<Rightarrow> bool option" where
  "accept_match whole_word0 line start end0 =
     (if whole_word0 then whole_word_at line start end0 else Some True)"

lemma py_find_Some: "py_find s sub start = Some i \<Longrightarrow> start \<le> i \<and> i \<le> length s"
proof (induction s sub start rule: py_find.induct)
  case (1 s sub start)
  then show ?case
    by (subst (asm) (2) py_find.simps) (auto split: if_splits)
qed

declare py_find.simps [simp del]

function scan_line :: "string \<Rightarrow> string \<Rightarrow> bool \<Rightarrow> int \<Rightarrow> nat \<Rightarrow> (int \<times> int) list option" where
  \<comment> \<open>the \<open>while True\<close> loop over one line, from column \<open>x\<close>\<close>
  "scan_line line pattern0 whole_word0 y x =
     (case py_find line pattern0 x of
        None \<Rightarrow> Some []
      | Some x1 \<Rightarrow>
          (case accept_match whole_word0 line (int x1) (int x1 + int (length pattern0)) of
             None \<Rightarrow> None
           | Some ok \<Rightarrow>
               map_option (\<lambda>rest. (if ok then [(y, int x1)] else []) @ rest)
                 (scan_line line pattern0 whole_word0 y (Suc x1))))"
  by pat_completeness auto
termination
  by (relation "measure (\<lambda>(line, pattern0, whole_word0, y, x). Suc (length line) - x)")
     (auto dest!: py_find_Some)

fun regex_line :: "string \<Rightarrow> bool \<Rightarrow> int \<Rightarrow> (int \<times> int) list \<Rightarrow> (int \<times> int) list option" where
  \<comment> \<open>the loop over the matches \<open>finditer\<close> yields in one line\<close>
  "regex_line line whole_word0 y [] = Some []"
| "regex_line line whole_word0 y ((start, end0) # spans) =
     (case accept_match whole_word0 line start end0 of
        None \<Rightarrow> None
      | Some ok \<Rightarrow>
          map_option (\<lambda>rest. (if ok then [(y, start)] else []) @ rest)
            (regex_line line whole_word0 y spans))"

fun search_rows ::
  "(int \<Rightarrow> string \<Rightarrow> (int \<times> int) list option) \<Rightarrow> string list \<Rightarrow> int list \<Rightarrow>
   (int \<times> int) list option" where
  \<comment> \<open>\<open>for y in range(start_line, end_line)\<close>\<close>
  "search_rows in_line content0 [] = Some []"
| "search_rows in_line content0 (y # ys) = do {
     line \<leftarrow> py_index content0 y;
     found \<leftarrow> in_line y line;
     rest \<leftarrow> search_rows in_line content0 ys;
     Some (found @ rest)
   }"

definition search_range ::
  "string list \<Rightarrow> bool \<Rightarrow> (int \<times> int) option \<Rightarrow> (int \<times> int) option \<Rightarrow> int list" where
  \<comment> \<open>\<open>range(start_line, end_line)\<close>: the rows between the two ends of the selection, or all\<close>
  "search_range content0 search_in_selection0 selection_start0 selection_end0 =
     (case (search_in_selection0, selection_start0, selection_end0) of
        (True, Some s, Some e) \<Rightarrow> [min (fst s) (fst e)..max (fst s) (fst e) - 1]
      | _ \<Rightarrow> [0..int (length content0) - 1])"

definition search_text ::
  "'r re_module \<Rightarrow> string list \<Rightarrow> string \<Rightarrow> bool \<Rightarrow> bool \<Rightarrow> bool \<Rightarrow> bool \<Rightarrow>
   (int \<times> int) option \<Rightarrow> (int \<times> int) option \<Rightarrow> (int \<times> int) list option" where
  \<comment> \<open>the parameters \<open>start_y\<close> and \<open>start_x\<close> are never read; \<open>None\<close> is an exception
      that leaves the function\<close>
  "search_text re content0 pattern0 case_sensitive0 whole_word0 regex0 search_in_selection0
       selection_start0 selection_end0 =
     (if pattern0 = [] then Some []
      else if regex0 then
        (case re_compile re pattern0 (\<not> case_sensitive0) of
           None \<Rightarrow> Some []
         | Some compiled \<Rightarrow>
             search_rows
               (\<lambda>y line. regex_line line whole_word0 y (re_finditer re compiled line))
               content0
               (search_range content0 search_in_selection0 selection_start0 selection_end0))
      else
        (let pattern1 = (if \<not> case_sensitive0 then py_lower pattern0 else pattern0);
             content1 = (if \<not> case_sensitive0 then map py_lower content0 else content0)
         in search_rows (\<lambda>y line. scan_line line pattern1 whole_word0 y 0) content1
              (search_range content1 search_in_selection0 selection_start0 selection_end0)))"

section \<open>Display mapping\<close>

fun split_from :: "string \<Rightarrow> string \<Rightarrow> string list" where
  "split_from cur [] = (if cur = [] then [] else [cur])"
| "split_from cur (c # cs) =
     (if py_isspace c then (if cur = [] then split_from [] cs else cur # split_from [] cs)
      else split_from (cur @ [c]) cs)"

definition py_split :: "string \<Rightarrow> string list" where
  \<comment> \<open>\<open>s.split()\<close>: the maximal runs of characters that are not white space\<close>
  "py_split s = split_from [] s"

fun break_loop :: "int \<Rightarrow> string \<Rightarrow> string list \<Rightarrow> string \<Rightarrow> string list" where
  \<comment> \<open>\<open>for char in word\<close>, with \<open>parts\<close> and \<open>current\<close>, and the final flush\<close>
  "break_loop max_width [] parts current = (if current \<noteq> [] then parts @ [current] else parts)"
| "break_loop max_width (c # cs) parts current =
     (if int (length current) + 1 > max_width
      then break_loop max_width cs (parts @ [current]) [c]
      else break_loop max_width cs parts (current @ [c]))"

definition break_long_word :: "string \<Rightarrow> int \<Rightarrow> string list" where
  "break_long_word word max_width =
     (if int (length word) \<le> max_width then [word] else break_loop max_width word [] [])"

fun wrap_words ::
  "string \<Rightarrow> int \<Rightarrow> string list \<Rightarrow> string list \<times> string list \<times> int \<Rightarrow>
   string list \<times> string list \<times> int" where
  \<comment> \<open>\<open>for word in words\<close>, with \<open>(wrapped, current_line, current_length)\<close>\<close>
  "wrap_words indent_str max_content_width [] st = st"
| "wrap_words indent_str max_content_width (word # words) (wrapped, current_line, current_length) =
     (if int (length word) > max_content_width then
        (let (wrapped1, current_line1, current_length1) =
               (if current_line \<noteq> []
                then (wrapped @ [indent_str @ py_join '' '' current_line], [], 0)
                else (wrapped, current_line, current_length));
             word_parts = break_long_word word max_content_width
         in wrap_words indent_str max_content_width words
              (wrapped1 @ map (\<lambda>part. indent_str @ part) word_parts,
               current_line1, current_length1))
      else if current_length + int (length word) + (if current_line \<noteq> [] then 1 else 0)
                > max_content_width then
        wrap_words indent_str max_content_width words
          (wrapped @ [indent_str @ py_join '' '' current_line], [word], int (length word))
      else
        wrap_words indent_str max_content_width words
          (wrapped, current_line @ [word],
           current_length + int (length word) + (if current_line @ [word] \<noteq> [] then 1 else 0)))"

definition wrap_uncached :: "string \<Rightarrow> int \<Rightarrow> string list" where
  \<comment> \<open>the \<open>result\<close> that \<open>wrap_line\<close> computes when the key is not in the cache\<close>
  "wrap_uncached line width =
     (if int (length line) \<le> width then [line]
      else
        (let indent = int (length line) - int (length (py_lstrip line));
             indent_str = replicate (nat indent) (CHR '' '')
         in if py_strip line = [] then [line]
            else
              (let text = slice_from line indent;
                   words = py_split text
               in if words = [] then [line]
                  else
                    (case wrap_words indent_str (width - indent) words ([], [], 0) of
                       (wrapped, current_line, current_length) \<Rightarrow>
                         if current_line \<noteq> []
                         then wrapped @ [indent_str @ py_join '' '' current_line]
                         else wrapped))))"

text \<open>
  \<open>WRAP_CACHE\<close> is a dictionary, which keeps its keys in the order of insertion: an
  association list, the oldest key first.
\<close>

type_synonym wrap_cache = "((string \<times> int) \<times> string list) list"

definition WRAP_CACHE_SIZE :: nat where
  "WRAP_CACHE_SIZE = 1000"

definition wrap_line :: "wrap_cache \<Rightarrow> string \<Rightarrow> int \<Rightarrow> string list \<times> wrap_cache" where
  "wrap_line cache line width =
     (let cache_key = (line, width)
      in case map_of cache cache_key of
           Some result \<Rightarrow> (result, cache)
         | None \<Rightarrow>
             (let result = wrap_uncached line width;
                  cache1 = (if length cache \<ge> WRAP_CACHE_SIZE then tl cache else cache)
              in (result, cache1 @ [(cache_key, result)])))"

text \<open>
  The characters of a text that are not white space, in their order; and the caches in
  which every stored result is the one \<open>wrap_line\<close> computes for its key: the empty
  cache, and every cache that \<open>wrap_line\<close> has filled from it.
\<close>

definition visible :: "string \<Rightarrow> string" where
  "visible s = filter (\<lambda>c. \<not> py_isspace c) s"

definition cache_correct :: "wrap_cache \<Rightarrow> bool" where
  "cache_correct cache = list_all (\<lambda>(key, result). result = wrap_uncached (fst key) (snd key)) cache"

fun display_lines :: "wrap_cache \<Rightarrow> string list \<Rightarrow> int \<Rightarrow> string list \<times> wrap_cache" where
  \<comment> \<open>the loop of \<open>main\<close> that fills \<open>display_lines\<close>\<close>
  "display_lines cache [] text_width = ([], cache)"
| "display_lines cache (line # rest) text_width =
     (let (wrapped, cache1) = wrap_line cache line text_width;
          (more, cache2) = display_lines cache1 rest text_width
      in (wrapped @ more, cache2))"

fun display_index_loop ::
  "wrap_cache \<Rightarrow> string list \<Rightarrow> int \<Rightarrow> int list \<Rightarrow> int \<Rightarrow> (int \<times> wrap_cache) option" where
  "display_index_loop cache content0 text_width [] display_index = Some (display_index, cache)"
| "display_index_loop cache content0 text_width (i # rest) display_index = do {
     line \<leftarrow> py_index content0 i;
     let (wrapped, cache1) = wrap_line cache line text_width;
     display_index_loop cache1 content0 text_width rest (display_index + int (length wrapped))
   }"

definition get_display_line_index ::
  "wrap_cache \<Rightarrow> string list \<Rightarrow> int \<Rightarrow> int \<Rightarrow> (int \<times> wrap_cache) option" where
  "get_display_line_index cache content0 cursor_y0 text_width =
     display_index_loop cache content0 text_width [0..cursor_y0 - 1] 0"

definition leading_spaces_only :: "string \<Rightarrow> bool" where
  \<comment> \<open>\<open>line.startswith(' ' * (len(line) - len(line.lstrip())))\<close>\<close>
  "leading_spaces_only line =
     prefix (replicate (length line - length (py_lstrip line)) (CHR '' '')) line"

fun content_line_map :: "string list \<Rightarrow> int \<Rightarrow> int list" where
  \<comment> \<open>\<open>for line in display_lines\<close>, from \<open>current_content_line\<close>\<close>
  "content_line_map [] current_content_line = []"
| "content_line_map (line # rest) current_content_line =
     current_content_line #
     content_line_map rest
       (if \<not> leading_spaces_only line then current_content_line + 1 else current_content_line)"

definition get_content_line_index :: "string list \<Rightarrow> int \<Rightarrow> int option" where
  "get_content_line_index display_lines0 display_index =
     (if display_index \<ge> int (length display_lines0) then Some (int (length display_lines0) - 1)
      else py_index (content_line_map display_lines0 0) display_index)"

section \<open>Properties of the Python operations\<close>

lemma py_pos_nat: "0 \<le> i \<Longrightarrow> i < int n \<Longrightarrow> py_pos n i = Some (nat i)"
  by (simp add: py_pos_def)

lemma py_index_nat: "0 \<le> i \<Longrightarrow> i < int (length xs) \<Longrightarrow> py_index xs i = Some (xs ! nat i)"
  by (simp add: py_index_def py_pos_nat)

lemma py_assign_nat:
  "0 \<le> i \<Longrightarrow> i < int (length xs) \<Longrightarrow> py_assign xs i v = Some (xs[nat i := v])"
  by (simp add: py_assign_def py_pos_nat)

lemma py_del_nat:
  "0 \<le> i \<Longrightarrow> i < int (length xs) \<Longrightarrow>
   py_del xs i = Some (take (nat i) xs @ drop (Suc (nat i)) xs)"
  by (simp add: py_del_def py_pos_nat)

lemma slice_to_nat: "0 \<le> i \<Longrightarrow> slice_to xs i = take (nat i) xs"
  by (simp add: slice_to_def norm_bound_def min_def)

lemma slice_from_nat: "0 \<le> i \<Longrightarrow> slice_from xs i = drop (nat i) xs"
  by (simp add: slice_from_def norm_bound_def min_def)

lemma py_insert_nat: "0 \<le> i \<Longrightarrow> py_insert xs i v = take (nat i) xs @ v # drop (nat i) xs"
  by (simp add: py_insert_def norm_bound_def min_def Let_def)

lemma Move_ok:
  assumes "cursor_in_bounds state" "0 \<le> amount"
  shows "\<exists>state1. MoveCommand_execute direction amount state = Some state1 \<and>
           content state1 = content state \<and> is_modified state1 = is_modified state"
proof -
  let ?y = "cursor_y state" and ?n = "int (length (content state))"
  from assms have b: "0 \<le> ?y" "?y < ?n" by (simp_all add: cursor_in_bounds_def)
  have cur: "py_index (content state) ?y = Some (content state ! nat ?y)"
    by (rule py_index_nat) (use b in auto)
  have up: "py_index (content state) (max 0 (?y - amount)) =
              Some (content state ! nat (max 0 (?y - amount)))"
    by (rule py_index_nat) (use b assms(2) in auto)
  have down: "py_index (content state) (min (?n - 1) (?y + amount)) =
              Some (content state ! nat (min (?n - 1) (?y + amount)))"
    by (rule py_index_nat) (use b assms(2) in auto)
  show ?thesis
    unfolding MoveCommand_execute_def
    by (simp add: cur up down Let_def update_selection_def clear_selection_def)
qed

lemma Insert_ok:
  assumes "cursor_in_bounds state"
    and "insert_mode state \<or> cursor_x state = int (length (content state ! nat (cursor_y state)))"
  shows "\<exists>state1. InsertCommand_execute [c] state = Some state1 \<and> is_modified state1 \<and>
     InsertCommand_undo (cursor_y state) (cursor_x state) state1 =
       Some (state1\<lparr>content := content state, cursor_y := cursor_y state, cursor_x := cursor_x state\<rparr>)"
proof -
  let ?y = "cursor_y state" and ?x = "cursor_x state"
  let ?l = "content state ! nat ?y"
  from assms have b: "0 \<le> ?y" "?y < int (length (content state))" "0 \<le> ?x" "?x \<le> int (length ?l)"
    by (simp_all add: cursor_in_bounds_def)
  have n: "nat (?x + 1) = Suc (nat ?x)" using b by simp
  have len: "nat ?x \<le> length ?l" "nat ?y < length (content state)" using b by simp_all
  show ?thesis
  proof (cases "insert_mode state")
    case True
    then show ?thesis
      using b(3) len
      unfolding InsertCommand_execute_def InsertCommand_undo_def
      by (simp add: py_index_nat py_assign_nat slice_to_nat slice_from_nat b(1,2) n Let_def
          clear_selection_def)
  next
    case False
    with assms(2) have "?x = int (length ?l)" by simp
    then show ?thesis
      using False b(3) len
      unfolding InsertCommand_execute_def InsertCommand_undo_def
      by (simp add: py_index_nat py_assign_nat slice_to_nat slice_from_nat b(1,2) n Let_def
          clear_selection_def)
  qed
qed


lemma Backspace_ok:
  assumes "cursor_in_bounds state" and "0 < cursor_x state"
    and "[content state ! nat (cursor_y state) ! nat (cursor_x state - 1)] \<noteq> newline"
  shows "\<exists>d state1. BackspaceCommand_execute deleted_char state = Some (d, state1) \<and>
     is_modified state1 \<and>
     BackspaceCommand_undo d state1 =
       Some (state1\<lparr>content := content state, cursor_y := cursor_y state, cursor_x := cursor_x state\<rparr>)"
proof -
  let ?y = "cursor_y state" and ?x = "cursor_x state"
  let ?l = "content state ! nat ?y"
  from assms have b: "0 \<le> ?y" "?y < int (length (content state))" "0 \<le> ?x - 1" "?x \<le> int (length ?l)"
    by (simp_all add: cursor_in_bounds_def)
  have x1: "?x - 1 < int (length ?l)" using b by simp
  obtain k where k: "nat ?x = Suc k" "nat (?x - 1) = k" "k < length ?l"
    using b assms(2) by (cases "nat ?x") auto
  have len: "nat ?y < length (content state)" using b by simp
  have join: "take k ?l @ ?l ! k # drop (Suc k) ?l = ?l"
    using k(3) by (simp add: id_take_nth_drop [symmetric])
  show ?thesis
    using assms(2,3) len k join
    unfolding BackspaceCommand_execute_def BackspaceCommand_undo_def
    by (simp add: py_index_nat py_assign_nat slice_to_nat slice_from_nat b x1 Let_def
        clear_selection_def min_def)
qed

lemma Delete_ok:
  assumes "cursor_in_bounds state"
    and "cursor_x state < int (length (content state ! nat (cursor_y state)))"
    and "[content state ! nat (cursor_y state) ! nat (cursor_x state)] \<noteq> newline"
  shows "\<exists>d state1. DeleteCommand_execute deleted_char state = Some (d, state1) \<and>
     is_modified state1 \<and>
     DeleteCommand_undo d state1 =
       Some (state1\<lparr>content := content state, cursor_y := cursor_y state, cursor_x := cursor_x state\<rparr>)"
proof -
  let ?y = "cursor_y state" and ?x = "cursor_x state"
  let ?l = "content state ! nat ?y"
  from assms have b: "0 \<le> ?y" "?y < int (length (content state))" "0 \<le> ?x" "?x < int (length ?l)"
    by (simp_all add: cursor_in_bounds_def)
  have n: "nat (?x + 1) = Suc (nat ?x)" using b by simp
  have len: "nat ?y < length (content state)" "nat ?x < length ?l" using b by simp_all
  have join: "take (nat ?x) ?l @ ?l ! nat ?x # drop (Suc (nat ?x)) ?l = ?l"
    using len(2) by (simp add: id_take_nth_drop [symmetric])
  show ?thesis
    using assms(2,3) len join
    unfolding DeleteCommand_execute_def DeleteCommand_undo_def
    by (simp add: py_index_nat py_assign_nat slice_to_nat slice_from_nat b n Let_def
        clear_selection_def min_def)
qed

lemma Delete_noop_ok:
  assumes "cursor_in_bounds state"
    and "cursor_x state = int (length (content state ! nat (cursor_y state)))"
    and "cursor_y state = int (length (content state)) - 1"
  shows "\<exists>d state1. DeleteCommand_execute [] state = Some (d, state1) \<and>
     is_modified state1 \<and>
     DeleteCommand_undo d state1 =
       Some (state1\<lparr>content := content state, cursor_y := cursor_y state, cursor_x := cursor_x state\<rparr>)"
proof -
  let ?y = "cursor_y state" and ?x = "cursor_x state"
  let ?l = "content state ! nat ?y"
  from assms have b: "0 \<le> ?y" "?y < int (length (content state))" "0 \<le> ?x"
    by (simp_all add: cursor_in_bounds_def)
  have len: "nat ?y < length (content state)" using b by simp
  have last: "\<not> ?y < int (length (content state)) - 1" using assms(3) by simp
  have nl: "[] \<noteq> newline" by (simp add: newline_def)
  have ex: "DeleteCommand_execute [] state =
      Some ([], state\<lparr>is_modified := True, selection_start := None, selection_end := None\<rparr>)"
    using assms(2) last unfolding DeleteCommand_execute_def
    by (simp add: py_index_nat b clear_selection_def)
  show ?thesis
    unfolding ex DeleteCommand_undo_def
    using len nl assms(2) b
    by (simp add: py_index_nat py_assign_nat slice_to_nat slice_from_nat)
qed

lemma split_then_join:
  assumes "k < length c"
  shows "length (take (Suc k) (c[k := a]) @ b # drop (Suc k) (c[k := a])) = Suc (length c)"
    and "(take (Suc k) (c[k := a]) @ b # drop (Suc k) (c[k := a])) ! k = a"
    and "(take (Suc k) (c[k := a]) @ b # drop (Suc k) (c[k := a])) ! Suc k = b"
    and "take (Suc k) ((take (Suc k) (c[k := a]) @ b # drop (Suc k) (c[k := a]))[k := v]) @
         drop (Suc (Suc k)) ((take (Suc k) (c[k := a]) @ b # drop (Suc k) (c[k := a]))[k := v]) =
         c[k := v]"
proof -
  obtain pre l post where c: "c = pre @ l # post" and k: "length pre = k"
    using assms id_take_nth_drop [of k c] by (metis length_take min.absorb2 less_imp_le)
  show "length (take (Suc k) (c[k := a]) @ b # drop (Suc k) (c[k := a])) = Suc (length c)"
    using assms by simp
  show "(take (Suc k) (c[k := a]) @ b # drop (Suc k) (c[k := a])) ! k = a"
    using assms by (simp add: nth_append)
  show "(take (Suc k) (c[k := a]) @ b # drop (Suc k) (c[k := a])) ! Suc k = b"
    using assms by (simp add: nth_append min_def)
  show "take (Suc k) ((take (Suc k) (c[k := a]) @ b # drop (Suc k) (c[k := a]))[k := v]) @
         drop (Suc (Suc k)) ((take (Suc k) (c[k := a]) @ b # drop (Suc k) (c[k := a]))[k := v]) =
         c[k := v]"
    unfolding c using k by (simp add: list_update_append)
qed

lemma Enter_ok:
  assumes "cursor_in_bounds state"
    and "py_lstrip (content state ! nat (cursor_y state)) = content state ! nat (cursor_y state)"
  shows "\<exists>state1. EnterCommand_execute state = Some state1 \<and> is_modified state1 \<and>
     EnterCommand_undo (cursor_y state) (cursor_x state) state1 =
       Some (state1\<lparr>content := content state, cursor_y := cursor_y state, cursor_x := cursor_x state\<rparr>)"
proof -
  let ?y = "cursor_y state" and ?x = "cursor_x state" and ?c = "content state"
  let ?l = "?c ! nat ?y"
  from assms have b: "0 \<le> ?y" "?y < int (length ?c)" "0 \<le> ?x" "?x \<le> int (length ?l)"
    by (simp_all add: cursor_in_bounds_def)
  have n: "nat (?y + 1) = Suc (nat ?y)" using b by simp
  have len: "nat ?y < length ?c" using b by simp
  define c2 where "c2 = take (Suc (nat ?y)) (?c[nat ?y := take (nat ?x) ?l]) @
               drop (nat ?x) ?l # drop (Suc (nat ?y)) (?c[nat ?y := take (nat ?x) ?l])"
  have ex: "EnterCommand_execute state =
    Some (state\<lparr>content := c2, cursor_y := ?y + 1, cursor_x := 0, is_modified := True,
           selection_start := None, selection_end := None\<rparr>)"
    using len assms(2) b unfolding EnterCommand_execute_def c2_def
    by (simp add: py_index_nat py_assign_nat slice_to_nat slice_from_nat py_insert_nat n Let_def
        clear_selection_def)
  note sj = split_then_join [OF len, of "take (nat ?x) ?l" "drop (nat ?x) ?l", folded c2_def]
  have i0: "py_index c2 ?y = Some (take (nat ?x) ?l)"
    using b sj(1,2) by (simp add: py_index_nat)
  have i1: "py_index c2 (?y + 1) = Some (drop (nat ?x) ?l)"
    using b sj(1,3) by (simp add: py_index_nat n)
  have a0: "py_assign c2 ?y v = Some (c2[nat ?y := v])" for v
    using b sj(1) by (simp add: py_assign_nat)
  have d1: "py_del (c2[nat ?y := v]) (?y + 1) = Some (?c[nat ?y := v])" for v
    using b sj(1) sj(4) [of v] by (simp add: py_del_nat n)
  show ?thesis
    unfolding ex EnterCommand_undo_def
    by (simp add: i0 i1 a0 d1)
qed


lemma keep_last_last: "0 < n \<Longrightarrow> deque_append n xs x \<noteq> [] \<and> last (deque_append n xs x) = x
    \<and> butlast (deque_append n xs x) = keep_last (n - 1) xs"
  by (auto simp: deque_append_def keep_last_def butlast_drop Suc_diff_le)

lemma keep_last_append: "keep_last n (keep_last n ys @ zs) = keep_last n (ys @ zs)"
  by (cases "length ys \<le> n") (simp_all add: keep_last_def add.commute)

lemma perform_all_append:
  "perform_all fm (as @ bs) hs = perform_all fm as hs \<bind> perform_all fm bs"
proof (induction as arbitrary: hs)
  case Nil
  show ?case by simp
next
  case (Cons a as)
  then show ?case by (cases "perform fm a hs") simp_all
qed

lemma execute_then_undo:
  assumes "Command_execute fm c s = Some (c1, s1)" and "Command_undo c1 s1 = Some s2"
  shows "\<exists>h1 h2. execute_command fm c (h, s) = Some (h1, s1) \<and> undo (h1, s1) = Some (h2, s2)"
  using assms keep_last_last [of MAX_UNDO "undo_stack h" c1]
  by (simp add: execute_command_def undo_def MAX_UNDO_def)

lemma typed_commands_snoc:
  "typed_commands y x (cs @ [c]) = typed_commands y x cs @ [InsertCommand [c] y (x + int (length cs))]"
  by (induction cs arbitrary: x) (simp_all add: add.assoc)

lemma length_typed_commands: "length (typed_commands y x cs) = length cs"
  by (induction cs arbitrary: x) simp_all

lemma keep_last_exact: "length zs = n \<Longrightarrow> keep_last n (ys @ zs) = zs"
  by (simp add: keep_last_def)

lemma insert_step:
  assumes "cursor_in_bounds s"
    and "insert_mode s \<or> cursor_x s = int (length (cursor_line s))"
  shows "Command_execute fm (InsertCommand [c] old_y old_x) s =
     Some (InsertCommand [c] (cursor_y s) (cursor_x s),
           s\<lparr>content := (content s)[nat (cursor_y s) :=
                 take (nat (cursor_x s)) (cursor_line s) @ c # drop (nat (cursor_x s)) (cursor_line s)],
             cursor_x := cursor_x s + 1, is_modified := True,
             selection_start := None, selection_end := None\<rparr>)"
proof -
  let ?y = "cursor_y s" and ?x = "cursor_x s"
  let ?l = "content s ! nat ?y"
  from assms have b: "0 \<le> ?y" "?y < int (length (content s))" "0 \<le> ?x" "?x \<le> int (length ?l)"
    by (simp_all add: cursor_in_bounds_def)
  show ?thesis
  proof (cases "insert_mode s")
    case True
    then show ?thesis
      using b(3) unfolding InsertCommand_execute_def Command_execute.simps cursor_line_def
      by (simp add: py_index_nat py_assign_nat slice_to_nat slice_from_nat b(1,2) Let_def
          clear_selection_def)
  next
    case False
    with assms(2) have "?x = int (length ?l)" by (simp add: cursor_line_def)
    then show ?thesis
      using False b(3) unfolding InsertCommand_execute_def Command_execute.simps cursor_line_def
      by (simp add: py_index_nat py_assign_nat slice_to_nat slice_from_nat b(1,2) Let_def
          clear_selection_def)
  qed
qed

lemma perform_typing:
  assumes "cursor_in_bounds s"
    and "insert_mode s \<or> cursor_x s = int (length (cursor_line s))"
    and "undo_stack h = keep_last MAX_UNDO base"
  shows "\<exists>h' s'.
     perform_all fm (map (\<lambda>ch. Execute (InsertCommand [ch] 0 0)) chars) (h, s) = Some (h', s') \<and>
     content s' = (content s)[nat (cursor_y s) :=
        take (nat (cursor_x s)) (cursor_line s) @ chars @ drop (nat (cursor_x s)) (cursor_line s)] \<and>
     cursor_y s' = cursor_y s \<and> cursor_x s' = cursor_x s + int (length chars) \<and>
     undo_stack h' = keep_last MAX_UNDO (base @ typed_commands (cursor_y s) (cursor_x s) chars)"
  using assms
proof (induction chars arbitrary: h s base)
  case Nil
  then have "nat (cursor_y s) < length (content s)" by (auto simp: cursor_in_bounds_def)
  with Nil show ?case by (simp add: cursor_line_def)
next
  case (Cons c chars)
  let ?y = "cursor_y s" and ?x = "cursor_x s"
  let ?l = "cursor_line s"
  let ?s1 = "s\<lparr>content := (content s)[nat ?y := take (nat ?x) ?l @ c # drop (nat ?x) ?l],
             cursor_x := ?x + 1, is_modified := True,
             selection_start := None, selection_end := None\<rparr>"
  let ?h1 = "h\<lparr>undo_stack := deque_append MAX_UNDO (undo_stack h) (InsertCommand [c] ?y ?x),
                redo_stack := []\<rparr>"
  from Cons.prems have b: "0 \<le> ?y" "nat ?y < length (content s)" "0 \<le> ?x" "nat ?x \<le> length ?l"
    by (auto simp: cursor_in_bounds_def cursor_line_def)
  have step: "execute_command fm (InsertCommand [c] 0 0) (h, s) = Some (?h1, ?s1)"
    using insert_step [OF Cons.prems(1,2), of fm c 0 0] by (simp add: execute_command_def)
  have l1: "cursor_line ?s1 = take (nat ?x) ?l @ c # drop (nat ?x) ?l"
    using b by (simp add: cursor_line_def)
  have b1: "cursor_in_bounds ?s1"
    using Cons.prems(1) b by (simp add: cursor_in_bounds_def cursor_line_def)
  have m1: "insert_mode ?s1 \<or> cursor_x ?s1 = int (length (cursor_line ?s1))"
    using Cons.prems(2) b unfolding l1 by auto
  have u1: "undo_stack ?h1 = keep_last MAX_UNDO ((base @ [InsertCommand [c] ?y ?x]))"
    using Cons.prems(3) by (simp add: deque_append_def keep_last_append)
  from Cons.IH [OF b1 m1 u1] obtain h' s' where
    run: "perform_all fm (map (\<lambda>ch. Execute (InsertCommand [ch] 0 0)) chars) (?h1, ?s1) = Some (h', s')"
    and c': "content s' = (content ?s1)[nat (cursor_y ?s1) :=
        take (nat (cursor_x ?s1)) (cursor_line ?s1) @ chars @ drop (nat (cursor_x ?s1)) (cursor_line ?s1)]"
    and y': "cursor_y s' = cursor_y ?s1" and x': "cursor_x s' = cursor_x ?s1 + int (length chars)"
    and u': "undo_stack h' = keep_last MAX_UNDO ((base @ [InsertCommand [c] ?y ?x]) @
               typed_commands (cursor_y ?s1) (cursor_x ?s1) chars)"
    by blast
  have nx: "nat (?x + 1) = Suc (nat ?x)" using b by simp
  have "content s' = (content s)[nat ?y := take (nat ?x) ?l @ (c # chars) @ drop (nat ?x) ?l]"
    unfolding c' l1 using b by (simp add: nx)
  moreover have "perform_all fm (map (\<lambda>ch. Execute (InsertCommand [ch] 0 0)) (c # chars)) (h, s) =
      Some (h', s')"
    using step run by simp
  ultimately show ?case
    using y' x' u' by simp
qed

lemma perform_undos:
  assumes "0 \<le> y" and "y < int (length (content s))"
    and "content s ! nat y = pre @ chars @ post"
    and "cursor_y s = y" and "cursor_x s = int (length pre) + int (length chars)"
    and "undo_stack h = base @ typed_commands y (int (length pre)) chars"
  shows "\<exists>h' s'. perform_all fm (replicate (length chars) Undo) (h, s) = Some (h', s') \<and>
     content s' = (content s)[nat y := pre @ post] \<and>
     cursor_y s' = y \<and> cursor_x s' = int (length pre) \<and> undo_stack h' = base"
  using assms
proof (induction chars arbitrary: h s rule: rev_induct)
  case Nil
  have "(content s)[nat y := content s ! nat y] = content s" by (rule list_update_id)
  with Nil show ?case by simp
next
  case (snoc c chars)
  let ?cmd = "InsertCommand [c] y (int (length pre) + int (length chars))"
  let ?s1 = "s\<lparr>content := (content s)[nat y := pre @ chars @ post], cursor_y := y,
               cursor_x := int (length pre) + int (length chars)\<rparr>"
  let ?h1 = "h\<lparr>undo_stack := base @ typed_commands y (int (length pre)) chars,
               redo_stack := deque_append MAX_UNDO (redo_stack h) ?cmd\<rparr>"
  have st: "undo_stack h = (base @ typed_commands y (int (length pre)) chars) @ [?cmd]"
    using snoc.prems(6) by (simp add: typed_commands_snoc)
  have n1: "nat (cursor_x s - 1) = length pre + length chars"
    and n2: "nat (cursor_x s) = Suc (length pre + length chars)"
    using snoc.prems(5) by simp_all
  have x0: "0 \<le> cursor_x s - 1" "0 \<le> cursor_x s" using snoc.prems(5) by simp_all
  have un: "InsertCommand_undo y (int (length pre) + int (length chars)) s = Some ?s1"
    unfolding InsertCommand_undo_def
    using snoc.prems(1,2,3,4)
    by (simp add: py_index_nat py_assign_nat slice_to_nat [OF x0(1)] slice_from_nat [OF x0(2)] n1 n2)
  have step: "undo (h, s) = Some (?h1, ?s1)"
    using un st by (simp add: undo_def Let_def butlast_append)
  have p1: "y < int (length (content ?s1))" "content ?s1 ! nat y = pre @ chars @ post"
    "cursor_y ?s1 = y" "cursor_x ?s1 = int (length pre) + int (length chars)"
    "undo_stack ?h1 = base @ typed_commands y (int (length pre)) chars"
    using snoc.prems(1,2) by simp_all
  from snoc.IH [OF snoc.prems(1) p1] obtain h' s' where
    run: "perform_all fm (replicate (length chars) Undo) (?h1, ?s1) = Some (h', s')"
    and r: "content s' = (content ?s1)[nat y := pre @ post]" "cursor_y s' = y"
      "cursor_x s' = int (length pre)" "undo_stack h' = base"
    by blast
  have "perform_all fm (replicate (length (chars @ [c])) Undo) (h, s) = Some (h', s')"
    using step run by simp
  then show ?case using r by simp
qed


section \<open>Claims about the history\<close>

text \<open>
  Claim C10. Backspace at row 0, column 0: the lines, the cursor and the recorded deleted
  character stay as they are, the modified flag becomes true and the selection is cleared.
  The command records the cursor \<open>(0, 0)\<close> as its old position.
\<close>

theorem BackspaceCommand_at_origin:
  assumes "cursor_y state = 0" and "cursor_x state = 0"
  shows "Command_execute fm (BackspaceCommand old_y old_x deleted_char) state =
     Some (BackspaceCommand 0 0 deleted_char,
           state\<lparr>is_modified := True, selection_start := None, selection_end := None\<rparr>)"
  using assms by (simp add: BackspaceCommand_execute_def clear_selection_def)

theorem BackspaceCommand_at_origin_witness:
  "cursor_y ((initial_state [''ab'', ''cd''] [] None)\<lparr>selection_start := Some (0, 1)\<rparr>) = 0 \<and>
   cursor_x ((initial_state [''ab'', ''cd''] [] None)\<lparr>selection_start := Some (0, 1)\<rparr>) = 0 \<and>
   Command_execute no_formatters (BackspaceCommand 0 0 [])
       ((initial_state [''ab'', ''cd''] [] None)\<lparr>selection_start := Some (0, 1)\<rparr>) =
     Some (BackspaceCommand 0 0 [], (initial_state [''ab'', ''cd''] [] None)\<lparr>is_modified := True\<rparr>)"
  using BackspaceCommand_at_origin
    [of "(initial_state [''ab'', ''cd''] [] None)\<lparr>selection_start := Some (0, 1)\<rparr>"
        no_formatters 0 0 "[]"]
  by (simp add: initial_state_def)

text \<open>
  Claim C1, as amended. For a document with the cursor in bounds and a command at which
  \<open>reversible\<close> holds, \<open>execute_command\<close> followed by \<open>undo\<close> succeeds and gives back the line
  sequence and the cursor position. The modified flag and the selection are not restored:
  \<open>undo\<close> leaves them as \<open>execute\<close> set them.
\<close>

theorem undo_execute_restores_text_and_cursor:
  assumes "cursor_in_bounds state" and "reversible command state"
  shows "\<exists>handler1 state1 handler2 state2.
     execute_command fm command (handler, state) = Some (handler1, state1) \<and>
     undo (handler1, state1) = Some (handler2, state2) \<and>
     content state2 = content state \<and>
     cursor_y state2 = cursor_y state \<and> cursor_x state2 = cursor_x state \<and>
     is_modified state2 = is_modified state1 \<and>
     selection_start state2 = selection_start state1 \<and>
     selection_end state2 = selection_end state1"
proof -
  have "\<exists>c1 s1. Command_execute fm command state = Some (c1, s1) \<and>
          Command_undo c1 s1 = Some (s1\<lparr>content := content state, cursor_y := cursor_y state,
                                          cursor_x := cursor_x state\<rparr>)"
  proof (cases command)
    case (MoveCommand direction amount old_y old_x)
    with assms Move_ok [of state amount direction] show ?thesis
      by (auto simp: MoveCommand_undo_def)
  next
    case (InsertCommand char old_y old_x)
    with assms(2) obtain c where "char = [c]"
      by (cases char) auto
    with InsertCommand assms Insert_ok [of state c] show ?thesis
      by (auto simp: cursor_line_def)
  next
    case (BackspaceCommand old_y old_x deleted_char)
    with assms Backspace_ok [of state deleted_char] show ?thesis
      by (auto simp: cursor_line_def)
  next
    case (DeleteCommand old_y old_x deleted_char)
    show ?thesis
    proof (cases "cursor_x state < int (length (cursor_line state))")
      case True
      with DeleteCommand assms Delete_ok [of state deleted_char] show ?thesis
        by (auto simp: cursor_line_def)
    next
      case False
      with assms have "cursor_x state = int (length (cursor_line state))"
        by (simp add: cursor_in_bounds_def cursor_line_def)
      with False DeleteCommand assms Delete_noop_ok [of state] show ?thesis
        by (auto simp: cursor_line_def)
    qed
  next
    case (EnterCommand old_y old_x)
    with assms Enter_ok [of state] show ?thesis
      by (auto simp: cursor_line_def)
  next
    case (ReplaceCommand pattern replacement case_sensitive old_content)
    then show ?thesis
      by (simp add: ReplaceCommand_execute_def ReplaceCommand_undo_def)
  next
    case (FormatCommand old_content)
    then show ?thesis
      by (simp add: FormatCommand_execute_def FormatCommand_undo_def)
  qed
  then obtain c1 s1 where
    ex: "Command_execute fm command state = Some (c1, s1)" and
    un: "Command_undo c1 s1 = Some (s1\<lparr>content := content state, cursor_y := cursor_y state,
                                          cursor_x := cursor_x state\<rparr>)"
    by blast
  from execute_then_undo [OF ex un, of handler] show ?thesis
    by auto
qed

theorem undo_execute_restores_text_and_cursor_witness:
  "cursor_in_bounds ((initial_state [''abc''] [] None)\<lparr>cursor_x := 2\<rparr>) \<and>
   reversible (BackspaceCommand 0 0 []) ((initial_state [''abc''] [] None)\<lparr>cursor_x := 2\<rparr>) \<and>
   (\<exists>handler1 state1 handler2 state2.
     execute_command no_formatters (BackspaceCommand 0 0 [])
       (new_handler, (initial_state [''abc''] [] None)\<lparr>cursor_x := 2\<rparr>) = Some (handler1, state1) \<and>
     undo (handler1, state1) = Some (handler2, state2) \<and>
     content state2 = [''abc''] \<and> cursor_y state2 = 0 \<and> cursor_x state2 = 2)"
proof -
  let ?st = "(initial_state [''abc''] [] None)\<lparr>cursor_x := 2\<rparr>"
  have b: "cursor_in_bounds ?st"
    by (simp add: cursor_in_bounds_def initial_state_def)
  have r: "reversible (BackspaceCommand 0 0 []) ?st"
    by (simp add: cursor_line_def initial_state_def newline_def)
  have c: "content ?st = [''abc'']" "cursor_y ?st = 0" "cursor_x ?st = 2"
    by (simp_all add: initial_state_def)
  from undo_execute_restores_text_and_cursor [OF b r, of no_formatters new_handler]
  show ?thesis unfolding c using b r by blast
qed

text \<open>
  The claim as stated fails: typing one character into the empty document and undoing it
  leaves the modified flag set, so the state is not the one before \<open>execute\<close>.
\<close>

theorem undo_execute_whole_state_counterexample:
  "cursor_in_bounds (initial_state [''''] [] None) \<and>
   (execute_command no_formatters (InsertCommand ''a'' 0 0)
      (new_handler, initial_state [''''] [] None) \<bind> undo) =
     Some (\<lparr>undo_stack = [], redo_stack = [InsertCommand ''a'' 0 0]\<rparr>,
           (initial_state [''''] [] None)\<lparr>is_modified := True\<rparr>) \<and>
   (initial_state [''''] [] None)\<lparr>is_modified := True\<rparr> \<noteq> initial_state [''''] [] None"
  by (simp add: cursor_in_bounds_def initial_state_def execute_command_def undo_def
      new_handler_def InsertCommand_execute_def InsertCommand_undo_def py_index_def
      py_assign_def py_pos_def slice_to_def slice_from_def norm_bound_def clear_selection_def
      deque_append_def keep_last_def MAX_UNDO_def)

text \<open>
  Claim C4. With the capacity \<open>MAX_UNDO = 100\<close>, typing 101 characters (\<open>c\<close>, then the 100
  of \<open>chars\<close>) and undoing 100 times succeeds and leaves the lines and the cursor as they
  are after typing \<open>c\<close> alone: the first command has left the undo stack, which is then
  empty, and a further \<open>undo\<close> changes nothing. The characters are typed in insert mode,
  or in overwrite mode at the end of the line, where typing inserts.
\<close>

theorem undo_capacity_evicts_oldest:
  assumes "cursor_in_bounds state"
    and "insert_mode state \<or> cursor_x state = int (length (cursor_line state))"
    and "length chars = 100"
  shows "\<exists>handler1 state1 handler2 state2.
     execute_command fm (InsertCommand [c] 0 0) (handler, state) = Some (handler1, state1) \<and>
     perform_all fm
       (map (\<lambda>ch. Execute (InsertCommand [ch] 0 0)) (c # chars) @ replicate 100 Undo)
       (handler, state) = Some (handler2, state2) \<and>
     content state2 = content state1 \<and>
     cursor_y state2 = cursor_y state1 \<and> cursor_x state2 = cursor_x state1 \<and>
     content state1 = (content state)[nat (cursor_y state) :=
        take (nat (cursor_x state)) (cursor_line state) @
        c # drop (nat (cursor_x state)) (cursor_line state)] \<and>
     cursor_y state1 = cursor_y state \<and> cursor_x state1 = cursor_x state + 1 \<and>
     undo_stack handler2 = [] \<and> undo (handler2, state2) = Some (handler2, state2)"
proof -
  let ?y = "cursor_y state" and ?x = "cursor_x state" and ?l = "cursor_line state"
  let ?pre = "take (nat ?x) ?l @ [c]" and ?post = "drop (nat ?x) ?l"
  let ?s1 = "state\<lparr>content := (content state)[nat ?y := take (nat ?x) ?l @ c # drop (nat ?x) ?l],
             cursor_x := ?x + 1, is_modified := True,
             selection_start := None, selection_end := None\<rparr>"
  let ?h1 = "handler\<lparr>undo_stack := deque_append MAX_UNDO (undo_stack handler) (InsertCommand [c] ?y ?x),
                redo_stack := []\<rparr>"
  let ?typing = "map (\<lambda>ch. Execute (InsertCommand [ch] 0 0)) chars"
  from assms(1) have b: "0 \<le> ?y" "nat ?y < length (content state)" "?y < int (length (content state))"
      "0 \<le> ?x" "nat ?x \<le> length ?l"
    by (auto simp: cursor_in_bounds_def cursor_line_def)
  have first: "execute_command fm (InsertCommand [c] 0 0) (handler, state) = Some (?h1, ?s1)"
    using insert_step [OF assms(1,2), of fm c 0 0] by (simp add: execute_command_def)
  have l1: "cursor_line ?s1 = take (nat ?x) ?l @ c # drop (nat ?x) ?l"
    using b by (simp add: cursor_line_def)
  have b1: "cursor_in_bounds ?s1"
    using assms(1) b by (simp add: cursor_in_bounds_def cursor_line_def)
  have m1: "insert_mode ?s1 \<or> cursor_x ?s1 = int (length (cursor_line ?s1))"
    using assms(2) b unfolding l1 by auto
  have u1: "undo_stack ?h1 = keep_last MAX_UNDO (undo_stack handler @ [InsertCommand [c] ?y ?x])"
    by (simp add: deque_append_def)
  from perform_typing [OF b1 m1 u1, of fm chars] obtain h' s' where
    typed: "perform_all fm ?typing (?h1, ?s1) = Some (h', s')"
    and c': "content s' = (content ?s1)[nat (cursor_y ?s1) :=
        take (nat (cursor_x ?s1)) (cursor_line ?s1) @ chars @ drop (nat (cursor_x ?s1)) (cursor_line ?s1)]"
    and y': "cursor_y s' = cursor_y ?s1" and x': "cursor_x s' = cursor_x ?s1 + int (length chars)"
    and u': "undo_stack h' = keep_last MAX_UNDO ((undo_stack handler @ [InsertCommand [c] ?y ?x]) @
               typed_commands (cursor_y ?s1) (cursor_x ?s1) chars)"
    by blast
  have nx: "nat (?x + 1) = Suc (nat ?x)" using b by simp
  have lp: "int (length ?pre) = ?x + 1" using b by simp
  have stack: "undo_stack h' = [] @ typed_commands ?y (int (length ?pre)) chars"
    unfolding u' lp using assms(3)
    by (simp add: keep_last_exact length_typed_commands MAX_UNDO_def del: append_assoc)
  have line': "content s' ! nat ?y = ?pre @ chars @ ?post"
    unfolding c' l1 using b by (simp add: nx)
  have len': "?y < int (length (content s'))"
    unfolding c' using b by simp
  have cy: "cursor_y s' = ?y" using y' by simp
  have cx: "cursor_x s' = int (length ?pre) + int (length chars)"
    unfolding x' lp by simp
  from perform_undos [OF b(1) len' line' cy cx stack, of fm] obtain h2 s2 where
    undone: "perform_all fm (replicate (length chars) Undo) (h', s') = Some (h2, s2)"
    and r: "content s2 = (content s')[nat ?y := ?pre @ ?post]" "cursor_y s2 = ?y"
      "cursor_x s2 = int (length ?pre)" "undo_stack h2 = []"
    by blast
  have all: "perform_all fm
       (map (\<lambda>ch. Execute (InsertCommand [ch] 0 0)) (c # chars) @ replicate 100 Undo)
       (handler, state) = Some (h2, s2)"
    using first typed undone assms(3) by (simp add: perform_all_append)
  have same: "content s2 = content ?s1"
    unfolding r(1) c' using b by simp
  have stop: "undo (h2, s2) = Some (h2, s2)"
    using r(4) by (simp add: undo_def)
  show ?thesis
    using first all same r(2) r(3) r(4) stop lp by simp
qed

theorem undo_capacity_evicts_oldest_witness:
  "cursor_in_bounds (initial_state [''''] [] None) \<and>
   insert_mode (initial_state [''''] [] None) \<and>
   length (replicate 100 (CHR ''b'')) = 100 \<and>
   (\<exists>handler2 state2.
      perform_all no_formatters
        (map (\<lambda>ch. Execute (InsertCommand [ch] 0 0)) (CHR ''a'' # replicate 100 (CHR ''b'')) @
         replicate 100 Undo)
        (new_handler, initial_state [''''] [] None) = Some (handler2, state2) \<and>
      content state2 = [''a''] \<and> cursor_y state2 = 0 \<and> cursor_x state2 = 1 \<and>
      undo_stack handler2 = [])"
proof -
  let ?st = "initial_state [''''] [] None"
  have b: "cursor_in_bounds ?st"
    by (simp add: cursor_in_bounds_def initial_state_def)
  have m: "insert_mode ?st"
    by (simp add: initial_state_def)
  then have m': "insert_mode ?st \<or> cursor_x ?st = int (length (cursor_line ?st))" ..
  have l: "length (replicate 100 (CHR ''b'')) = 100"
    by simp
  have c: "(content ?st)[nat (cursor_y ?st) :=
        take (nat (cursor_x ?st)) (cursor_line ?st) @
        CHR ''a'' # drop (nat (cursor_x ?st)) (cursor_line ?st)] = [''a'']"
    and y: "cursor_y ?st = 0" and x: "cursor_x ?st + 1 = 1"
    by (simp_all add: initial_state_def cursor_line_def)
  from undo_capacity_evicts_oldest [OF b m' l, of no_formatters "CHR ''a''" new_handler]
  have "\<exists>handler2 state2.
      perform_all no_formatters
        (map (\<lambda>ch. Execute (InsertCommand [ch] 0 0)) (CHR ''a'' # replicate 100 (CHR ''b'')) @
         replicate 100 Undo)
        (new_handler, ?st) = Some (handler2, state2) \<and>
      content state2 = [''a''] \<and> cursor_y state2 = 0 \<and> cursor_x state2 = 1 \<and>
      undo_stack handler2 = []"
    apply (elim exE conjE)
    subgoal for handler1 state1 handler2 state2
      apply (rule exI [of _ handler2], rule exI [of _ state2])
      apply (simp only: c)
      apply (simp only: y x simp_thms)
      done
    done
  with b m l show ?thesis
    by (intro conjI)
qed

text \<open>
  Claim C5. After any sequence of history actions that ends with a fresh
  \<open>execute_command\<close>, the redo stack is empty and \<open>redo\<close> changes nothing. The sequence
  \<open>execute(A); execute(B); undo(); execute(C)\<close> is the case
  \<open>actions = [Execute A, Execute B, Undo]\<close>.
\<close>

theorem execute_command_clears_redo:
  assumes "perform_all fm (actions @ [Execute command]) hs = Some hs'"
  shows "redo_stack (fst hs') = [] \<and> redo fm hs' = Some hs'"
proof -
  from assms obtain hs1 where "execute_command fm command hs1 = Some hs'"
    by (auto simp: perform_all_append split: bind_splits)
  then have "redo_stack (fst hs') = []"
    by (cases hs1) (auto simp: execute_command_def split: bind_splits)
  then show ?thesis
    by (cases hs') (simp add: redo_def)
qed

theorem execute_command_clears_redo_witness:
  "perform_all no_formatters
     ([Execute (InsertCommand ''a'' 0 0), Execute (InsertCommand ''b'' 0 0), Undo] @
      [Execute (InsertCommand ''c'' 0 0)])
     (new_handler, initial_state [''''] [] None) =
     Some (\<lparr>undo_stack = [InsertCommand ''a'' 0 0, InsertCommand ''c'' 0 1], redo_stack = []\<rparr>,
           (initial_state [''''] [] None)\<lparr>content := [''ac''], cursor_x := 2, is_modified := True\<rparr>) \<and>
   redo no_formatters
     (\<lparr>undo_stack = [InsertCommand ''a'' 0 0, InsertCommand ''c'' 0 1], redo_stack = []\<rparr>,
      (initial_state [''''] [] None)\<lparr>content := [''ac''], cursor_x := 2, is_modified := True\<rparr>) =
     Some (\<lparr>undo_stack = [InsertCommand ''a'' 0 0, InsertCommand ''c'' 0 1], redo_stack = []\<rparr>,
           (initial_state [''''] [] None)\<lparr>content := [''ac''], cursor_x := 2, is_modified := True\<rparr>)"
proof -
  have run: "perform_all no_formatters
     ([Execute (InsertCommand ''a'' 0 0), Execute (InsertCommand ''b'' 0 0), Undo] @
      [Execute (InsertCommand ''c'' 0 0)])
     (new_handler, initial_state [''''] [] None) =
     Some (\<lparr>undo_stack = [InsertCommand ''a'' 0 0, InsertCommand ''c'' 0 1], redo_stack = []\<rparr>,
           (initial_state [''''] [] None)\<lparr>content := [''ac''], cursor_x := 2, is_modified := True\<rparr>)"
    by (simp add: initial_state_def execute_command_def undo_def
        new_handler_def InsertCommand_execute_def InsertCommand_undo_def py_index_def
        py_assign_def py_pos_def slice_to_def slice_from_def norm_bound_def clear_selection_def
        deque_append_def keep_last_def MAX_UNDO_def)
  from execute_command_clears_redo [OF run] run show ?thesis
    by simp
qed

section \<open>Properties of replace and search\<close>

lemma replace_scan_absent: "\<not> sublist old s \<Longrightarrow> replace_scan s old new = s"
proof (induction s)
  case Nil
  show ?case by simp
next
  case (Cons c cs)
  from Cons.prems have np: "\<not> prefix old (c # cs)" and ns: "\<not> sublist old cs"
    by (simp_all add: sublist_Cons_right)
  from Cons.IH [OF ns] np show ?case
    by (simp del: prefix_Cons)
qed

lemma py_replace_absent: "\<not> sublist old s \<Longrightarrow> py_replace s old new = s"
proof (cases "old = []")
  case True
  assume "\<not> sublist old s"
  with True show ?thesis by simp
next
  case False
  assume "\<not> sublist old s"
  with False show ?thesis by (simp add: py_replace_def replace_scan_absent)
qed

lemma lower_char_idem: "lower_char (lower_char c) = lower_char c"
  by (auto simp: lower_char_def code_point_def Let_def)

lemma set_replace_scan: "set (replace_scan s old new) \<subseteq> set s \<union> set new"
proof (induction s old new rule: replace_scan.induct)
  case (1 old new)
  show ?case by simp
next
  case (2 c cs old new)
  show ?case
  proof (cases "old \<noteq> [] \<and> prefix old (c # cs)")
    case True
    with 2 have "set (replace_scan (drop (length old) (c # cs)) old new)
        \<subseteq> set (drop (length old) (c # cs)) \<union> set new" by simp
    also have "\<dots> \<subseteq> set (c # cs) \<union> set new"
      using set_drop_subset [of "length old" "c # cs"] by blast
    finally show ?thesis using True by auto
  next
    case False
    with 2 show ?thesis by auto
  qed
qed

lemma set_py_replace: "set (py_replace s old new) \<subseteq> set s \<union> set new"
  using set_replace_scan [of s old new] by (auto simp: py_replace_def)

lemma py_lower_fixed: "py_lower s = s \<longleftrightarrow> (\<forall>c \<in> set s. lower_char c = c)"
  by (simp add: py_lower_def map_idI) (metis map_eq_conv map_ident)

lemma py_replace_lower:
  assumes "py_lower new = new"
  shows "py_lower (py_replace (py_lower s) old new) = py_replace (py_lower s) old new"
proof -
  have "\<forall>c \<in> set (py_lower s). lower_char c = c"
    by (auto simp: py_lower_def lower_char_idem)
  moreover from assms have "\<forall>c \<in> set new. lower_char c = c"
    by (simp add: py_lower_fixed)
  ultimately have "\<forall>c \<in> set (py_replace (py_lower s) old new). lower_char c = c"
    using set_py_replace [of "py_lower s" old new] by blast
  then show ?thesis by (simp add: py_lower_fixed)
qed


declare scan_line.simps [simp del]

lemma py_find_beyond: "length s < x \<Longrightarrow> py_find s sub x = None"
  by (subst py_find.simps) simp

lemma py_find_here: "x \<le> length s \<Longrightarrow> prefix sub (drop x s) \<Longrightarrow> py_find s sub x = Some x"
  by (subst py_find.simps) simp

lemma py_find_skip:
  "x \<le> length s \<Longrightarrow> \<not> prefix sub (drop x s) \<Longrightarrow> py_find s sub x = py_find s sub (Suc x)"
  by (subst py_find.simps) simp

lemma scan_line_all:
  "scan_line line p False y x =
     Some (map (\<lambda>i. (y, int i)) (filter (\<lambda>i. prefix p (drop i line)) [x..<Suc (length line)]))"
proof (induction "Suc (length line) - x" arbitrary: x)
  case 0
  then have "length line < x" by simp
  then show ?case
    by (subst scan_line.simps) (simp add: py_find_beyond)
next
  case (Suc n)
  then have x: "x \<le> length line" and n: "n = Suc (length line) - Suc x" by simp_all
  have range: "[x..<Suc (length line)] = x # [Suc x..<Suc (length line)]"
    using x by (simp add: upt_conv_Cons)
  show ?case
  proof (cases "prefix p (drop x line)")
    case True
    show ?thesis
      by (subst scan_line.simps)
         (simp add: py_find_here [OF x True] accept_match_def Suc.hyps(1) [OF n] range True
            del: upt_Suc)
  next
    case False
    have "scan_line line p False y x = scan_line line p False y (Suc x)"
      by (subst scan_line.simps, subst (2) scan_line.simps)
         (simp add: py_find_skip [OF x False])
    then show ?thesis
      by (simp add: Suc.hyps(1) [OF n] range False del: upt_Suc)
  qed
qed

lemma upto_as_upt: "[0..int n - 1] = map int [0..<n]"
proof (induction n)
  case 0
  show ?case by simp
next
  case (Suc n)
  have "[0..int (Suc n) - 1] = [0..int n - 1] @ [int n]"
    using upto_rec2 [of 0 "int n"] by simp
  with Suc show ?case by simp
qed

lemma search_rows_all:
  assumes "\<And>y. y \<in> set ys \<Longrightarrow> y < length content0"
    and "\<And>y. y \<in> set ys \<Longrightarrow> in_line (int y) (content0 ! y) = Some (f y)"
  shows "search_rows in_line content0 (map int ys) = Some (concat (map f ys))"
  using assms
proof (induction ys)
  case Nil
  show ?case by simp
next
  case (Cons y ys)
  have "py_index content0 (int y) = Some (content0 ! y)"
    using Cons.prems(1) [of y] by (simp add: py_index_nat)
  moreover have "in_line (int y) (content0 ! y) = Some (f y)"
    using Cons.prems(2) by simp
  moreover have "search_rows in_line content0 (map int ys) = Some (concat (map f ys))"
    using Cons by simp
  ultimately show ?case by simp
qed

lemma add_to_history_run:
  "fresh_patterns (last_search st) ps \<Longrightarrow>
   search_history (foldl add_to_history st ps) = search_history st @ ps"
proof (induction ps arbitrary: st)
  case Nil
  show ?case by simp
next
  case (Cons p ps)
  let ?st1 = "add_to_history st p"
  from Cons.prems have st1: "last_search ?st1 = p" "search_history ?st1 = search_history st @ [p]"
    by (simp_all add: add_to_history_def Let_def)
  from Cons.prems have "fresh_patterns (last_search ?st1) ps"
    by (simp add: st1)
  from Cons.IH [OF this] show ?case
    by (simp add: st1)
qed

lemma fresh_patterns_exist: "\<exists>ps. fresh_patterns l ps \<and> length ps = n"
proof (induction n arbitrary: l)
  case 0
  have "fresh_patterns l [] \<and> length ([] :: string list) = 0" by simp
  then show ?case by blast
next
  case (Suc n)
  obtain p :: string where p: "p \<noteq> []" "p \<noteq> l"
    by (cases "l = ''a''") auto
  from Suc obtain ps where "fresh_patterns p ps" "length ps = n" by blast
  with p have "fresh_patterns l (p # ps) \<and> length (p # ps) = Suc n" by simp
  then show ?case by blast
qed

section \<open>Claims about replace and search\<close>

text \<open>
  Claim C6. A case-insensitive Replace-all lower-cases the pattern and every stored line
  before substituting: the stored lines become \<open>py_replace (py_lower line) (py_lower pat) rep\<close>.
  A line in which the folded pattern does not occur is stored in lower case, and with a
  lower-case replacement every stored line is lower case. \<open>undo\<close> then gives back the line
  sequence as it was before \<open>execute\<close>.
\<close>

theorem ReplaceCommand_case_insensitive:
  "\<exists>handler1 state1.
     execute_command fm (ReplaceCommand pat rep False old_content) (handler, state) =
       Some (handler1, state1) \<and>
     content state1 = map (\<lambda>line. py_replace (py_lower line) (py_lower pat) rep) (content state) \<and>
     (\<forall>i < length (content state).
        \<not> sublist (py_lower pat) (py_lower (content state ! i)) \<longrightarrow>
        content state1 ! i = py_lower (content state ! i)) \<and>
     (py_lower rep = rep \<longrightarrow> (\<forall>line \<in> set (content state1). py_lower line = line)) \<and>
     (\<exists>handler2 state2. undo (handler1, state1) = Some (handler2, state2) \<and>
        content state2 = content state)"
proof -
  let ?c1 = "map (\<lambda>line. py_replace (py_lower line) (py_lower pat) rep) (content state)"
  let ?s1 = "state\<lparr>content := ?c1, is_modified := True\<rparr>"
  let ?cmd = "ReplaceCommand pat rep False (content state)"
  let ?h1 = "handler\<lparr>undo_stack := deque_append MAX_UNDO (undo_stack handler) ?cmd,
                redo_stack := []\<rparr>"
  have ex: "execute_command fm (ReplaceCommand pat rep False old_content) (handler, state) =
      Some (?h1, ?s1)"
    by (simp add: execute_command_def ReplaceCommand_execute_def replace_text_def)
  have un: "\<exists>handler2 state2. undo (?h1, ?s1) = Some (handler2, state2) \<and>
      content state2 = content state"
    using keep_last_last [of MAX_UNDO "undo_stack handler" ?cmd]
    by (simp add: undo_def ReplaceCommand_undo_def MAX_UNDO_def Let_def)
  have absent: "\<forall>i < length (content state).
        \<not> sublist (py_lower pat) (py_lower (content state ! i)) \<longrightarrow>
        content ?s1 ! i = py_lower (content state ! i)"
    by (simp add: py_replace_absent)
  have low: "py_lower rep = rep \<longrightarrow> (\<forall>line \<in> set (content ?s1). py_lower line = line)"
    by (auto simp: py_replace_lower)
  have c: "content ?s1 = ?c1" by simp
  show ?thesis
    using ex c absent low un by blast
qed

theorem ReplaceCommand_case_insensitive_witness:
  "\<exists>handler1 state1.
     execute_command no_formatters (ReplaceCommand ''WORLD'' ''x'' False [])
       (new_handler, initial_state [''Hello World'', ''ABC''] [] None) = Some (handler1, state1) \<and>
     content state1 = [''hello x'', ''abc''] \<and>
     (\<exists>handler2 state2. undo (handler1, state1) = Some (handler2, state2) \<and>
        content state2 = [''Hello World'', ''ABC''])"
proof -
  let ?st = "initial_state [''Hello World'', ''ABC''] [] None"
  have c: "content ?st = [''Hello World'', ''ABC'']"
    by (simp add: initial_state_def)
  have e: "map (\<lambda>line. py_replace (py_lower line) (py_lower ''WORLD'') ''x'')
             [''Hello World'', ''ABC''] = [''hello x'', ''abc'']"
    by code_simp
  from ReplaceCommand_case_insensitive [of no_formatters "''WORLD''" "''x''" "[]" new_handler ?st]
  obtain handler1 state1 where
    "execute_command no_formatters (ReplaceCommand ''WORLD'' ''x'' False [])
       (new_handler, ?st) = Some (handler1, state1)"
    "content state1 = map (\<lambda>line. py_replace (py_lower line) (py_lower ''WORLD'') ''x'') (content ?st)"
    "\<exists>handler2 state2. undo (handler1, state1) = Some (handler2, state2) \<and>
        content state2 = content ?st"
    by blast
  then show ?thesis
    unfolding c e by blast
qed

text \<open>
  Claim C7. A literal, case-sensitive search without whole-word mode reports every column
  at which the pattern occurs, overlapping occurrences included, row by row and from left
  to right within a row. For the pattern \<open>a\<close> and the document \<open>[aaa]\<close> these are the
  columns 0, 1 and 2 of row 0.
\<close>

theorem search_text_literal_all_occurrences:
  assumes "pat \<noteq> []"
  shows "search_text re content0 pat True False False False sel_start sel_end =
     Some (concat (map
        (\<lambda>y. map (\<lambda>x. (int y, int x))
               (filter (\<lambda>x. prefix pat (drop x (content0 ! y)))
                  [0..<Suc (length (content0 ! y))]))
        [0..<length content0]))"
proof -
  have "search_rows (\<lambda>y line. scan_line line pat False y 0) content0
          (map int [0..<length content0]) =
     Some (concat (map
        (\<lambda>y. map (\<lambda>x. (int y, int x))
               (filter (\<lambda>x. prefix pat (drop x (content0 ! y)))
                  [0..<Suc (length (content0 ! y))]))
        [0..<length content0]))"
    by (rule search_rows_all) (simp_all add: scan_line_all del: upt_Suc)
  then show ?thesis
    using assms by (simp add: search_text_def search_range_def upto_as_upt del: upt_Suc)
qed

theorem search_text_literal_all_occurrences_witness:
  "''a'' \<noteq> [] \<and>
   search_text \<lparr>re_compile = \<lambda>p ignorecase. (None :: unit option), re_finditer = \<lambda>r line. []\<rparr>
     [''aaa''] ''a'' True False False False None None = Some [(0, 0), (0, 1), (0, 2)]"
  using search_text_literal_all_occurrences
    [of "''a''" "\<lparr>re_compile = \<lambda>p ignorecase. (None :: unit option), re_finditer = \<lambda>r line. []\<rparr>"
        "[''aaa'']" None None]
  by simp

text \<open>
  Claim C8. In regex mode a pattern that \<open>re.compile\<close> rejects gives the empty match list,
  whatever the document and the other settings: the search returns, and no exception
  leaves it.
\<close>

theorem search_text_malformed_regex:
  assumes "re_compile re pat (\<not> cs) = None"
  shows "search_text re content0 pat cs ww True in_sel sel_start sel_end = Some []"
  using assms by (simp add: search_text_def)

theorem search_text_malformed_regex_witness:
  "re_compile \<lparr>re_compile = \<lambda>p ignorecase. if p = ''('' then None else Some p,
                re_finditer = \<lambda>r line. []\<rparr> ''('' (\<not> True) = None \<and>
   search_text \<lparr>re_compile = \<lambda>p ignorecase. if p = ''('' then None else Some p,
                re_finditer = \<lambda>r line. []\<rparr>
     [''f(x)''] ''('' True False True False None None = Some []"
proof -
  let ?re = "\<lparr>re_compile = \<lambda>p ignorecase. if p = ''('' then None else Some p,
              re_finditer = \<lambda>(r :: string) (line :: string). ([] :: (int \<times> int) list)\<rparr>"
  have h: "re_compile ?re ''('' (\<not> True) = None"
    by simp
  from search_text_malformed_regex [OF h] h show ?thesis
    by (intro conjI)
qed

text \<open>
  Claim C9, as amended. The search history has no capacity: a run of \<open>add_to_history\<close>
  calls, each with a non-empty pattern that is not the last search, appends every pattern
  to the list. \<open>get_previous_search\<close> and \<open>get_next_search\<close> return (with the replay cursor
  inside the list) and leave the list as it is.
\<close>

theorem search_history_is_unbounded:
  "(fresh_patterns (last_search st) ps \<longrightarrow>
      search_history (foldl add_to_history st ps) = search_history st @ ps) \<and>
   (history_index st \<le> int (length (search_history st)) \<longrightarrow>
      (\<exists>r st'. get_previous_search st = Some (r, st') \<and>
                search_history st' = search_history st)) \<and>
   (- 1 \<le> history_index st \<longrightarrow>
      (\<exists>r st'. get_next_search st = Some (r, st') \<and>
                search_history st' = search_history st))"
  by (auto simp: add_to_history_run get_previous_search_def get_next_search_def py_index_nat Let_def)

theorem search_history_is_unbounded_witness:
  "fresh_patterns (last_search new_search_state) [''a'', ''b''] \<and>
   search_history (foldl add_to_history new_search_state [''a'', ''b'']) = [''a'', ''b''] \<and>
   history_index new_search_state \<le> int (length (search_history new_search_state)) \<and>
   (\<exists>r st'. get_previous_search new_search_state = Some (r, st') \<and>
             search_history st' = []) \<and>
   - 1 \<le> history_index new_search_state \<and>
   (\<exists>r st'. get_next_search new_search_state = Some (r, st') \<and>
             search_history st' = [])"
proof -
  have f: "fresh_patterns (last_search new_search_state) [''a'', ''b'']"
    and i: "history_index new_search_state \<le> int (length (search_history new_search_state))"
    and j: "- 1 \<le> history_index new_search_state"
    and e: "search_history new_search_state = []"
    by (simp_all add: new_search_state_def)
  note t = search_history_is_unbounded [of new_search_state "[''a'', ''b'']"]
  from t f have "search_history (foldl add_to_history new_search_state [''a'', ''b'']) =
      search_history new_search_state @ [''a'', ''b'']"
    by blast
  moreover from t i have "\<exists>r st'. get_previous_search new_search_state = Some (r, st') \<and>
      search_history st' = search_history new_search_state"
    by blast
  moreover from t j have "\<exists>r st'. get_next_search new_search_state = Some (r, st') \<and>
      search_history st' = search_history new_search_state"
    by blast
  ultimately show ?thesis
    using f i j by (simp add: e)
qed

text \<open>
  The claim as stated fails: no capacity bounds the list, since a run of fresh patterns of
  any length is stored whole.
\<close>

theorem search_history_bound_counterexample:
  "\<not> (\<exists>capacity. \<forall>ps. fresh_patterns (last_search new_search_state) ps \<longrightarrow>
        length (search_history (foldl add_to_history new_search_state ps)) \<le> capacity)"
proof
  assume "\<exists>capacity. \<forall>ps. fresh_patterns (last_search new_search_state) ps \<longrightarrow>
        length (search_history (foldl add_to_history new_search_state ps)) \<le> capacity"
  then obtain capacity where bound:
    "\<And>ps. fresh_patterns (last_search new_search_state) ps \<Longrightarrow>
        length (search_history (foldl add_to_history new_search_state ps)) \<le> capacity"
    by blast
  obtain ps where ps: "fresh_patterns (last_search new_search_state) ps" "length ps = Suc capacity"
    using fresh_patterns_exist by blast
  have "search_history (foldl add_to_history new_search_state ps) = ps"
    using add_to_history_run [OF ps(1)] by (simp add: new_search_state_def)
  with bound [OF ps(1)] ps(2) show False by simp
qed

section \<open>Properties of wrapping\<close>

lemma isspace_space: "py_isspace (CHR '' '')"
  by (simp add: py_isspace_def code_point_def)

lemma visible_Nil: "visible [] = []"
  by (simp add: visible_def)

lemma visible_append: "visible (a @ b) = visible a @ visible b"
  by (simp add: visible_def)

lemma visible_concat_words:
  "\<forall>w \<in> set ws. \<forall>c \<in> set w. \<not> py_isspace c \<Longrightarrow> visible (concat ws) = concat ws"
  by (induction ws) (simp_all add: visible_def)

lemma visible_replicate_space: "visible (replicate n (CHR '' '')) = []"
  by (simp add: visible_def isspace_space)

lemma split_from_visible: "visible (concat (split_from cur s)) = visible (cur @ s)"
  by (induction s arbitrary: cur) (simp_all add: visible_def)

lemma split_from_words:
  "\<forall>c \<in> set cur. \<not> py_isspace c \<Longrightarrow>
   \<forall>w \<in> set (split_from cur s). w \<noteq> [] \<and> (\<forall>c \<in> set w. \<not> py_isspace c)"
proof (induction s arbitrary: cur)
  case Nil
  then show ?case by simp
next
  case (Cons a s)
  show ?case
  proof (cases "py_isspace a")
    case True
    from Cons.IH [of "[]"]
    have "\<forall>w \<in> set (split_from [] s). w \<noteq> [] \<and> (\<forall>c \<in> set w. \<not> py_isspace c)"
      by simp
    with True Cons.prems show ?thesis by simp
  next
    case False
    with Cons.prems have "\<forall>c \<in> set (cur @ [a]). \<not> py_isspace c" by simp
    from Cons.IH [OF this] False show ?thesis by simp
  qed
qed

lemma py_join_visible: "visible (py_join '' '' ws) = visible (concat ws)"
  by (induction "'' ''" ws rule: py_join.induct) (simp_all add: visible_def isspace_space)

lemma break_loop_concat: "concat (break_loop m cs parts cur) = concat parts @ cur @ cs"
  by (induction cs arbitrary: parts cur) simp_all

lemma break_loop_nonempty:
  "1 \<le> m \<Longrightarrow> \<forall>p \<in> set parts. p \<noteq> [] \<Longrightarrow> \<forall>p \<in> set (break_loop m cs parts cur). p \<noteq> []"
proof (induction cs arbitrary: parts cur)
  case Nil
  then show ?case by simp
next
  case (Cons c cs)
  show ?case
  proof (cases "int (length cur) + 1 > m")
    case True
    with Cons.prems(1) have "cur \<noteq> []" by auto
    with Cons.prems have "\<forall>p \<in> set (parts @ [cur]). p \<noteq> []" by simp
    from Cons.IH [OF Cons.prems(1) this] True show ?thesis by simp
  next
    case False
    with Cons.IH [OF Cons.prems] show ?thesis by simp
  qed
qed

lemma break_long_word_concat: "concat (break_long_word word m) = word"
  by (simp add: break_long_word_def break_loop_concat)

lemma break_long_word_nonempty:
  "1 \<le> m \<Longrightarrow> word \<noteq> [] \<Longrightarrow> \<forall>p \<in> set (break_long_word word m). p \<noteq> []"
  using break_loop_nonempty [of m "[]" word "[]"] by (simp add: break_long_word_def)

lemma visible_indented: "visible ind = [] \<Longrightarrow> visible (concat (map (\<lambda>part. ind @ part) ps)) = visible (concat ps)"
  by (induction ps) (simp_all add: visible_append)

lemma wrap_words_visible:
  assumes "visible ind = []"
  shows "(case wrap_words ind m ws (wr, cl, n) of
            (wr', cl', n') \<Rightarrow> visible (concat wr') @ visible (concat cl')) =
         visible (concat wr) @ visible (concat cl) @ visible (concat ws)"
  by (induction ws arbitrary: wr cl n)
     (simp_all add: Let_def visible_Nil visible_append py_join_visible visible_indented
        break_long_word_concat assms)

lemma word_visible: "\<forall>c \<in> set w. \<not> py_isspace c \<Longrightarrow> visible w = w"
  by (simp add: visible_def)

lemma joined_nonblank:
  assumes "cl \<noteq> []" and "\<forall>w \<in> set cl. w \<noteq> [] \<and> (\<forall>c \<in> set w. \<not> py_isspace c)"
  shows "visible (ind @ py_join '' '' cl) \<noteq> []"
proof -
  from assms(2) have "visible (concat cl) = concat cl"
    by (simp add: visible_concat_words)
  moreover from assms have "concat cl \<noteq> []"
    by (cases cl) auto
  ultimately show ?thesis
    by (simp add: visible_append py_join_visible)
qed

lemma parts_nonblank:
  assumes "1 \<le> m" and "w \<noteq> []" and "\<forall>c \<in> set w. \<not> py_isspace c"
  shows "\<forall>l \<in> set (map (\<lambda>part. ind @ part) (break_long_word w m)). visible l \<noteq> []"
proof -
  have "visible p \<noteq> []" if p: "p \<in> set (break_long_word w m)" for p
  proof -
    from p have "set p \<subseteq> set (concat (break_long_word w m))" by auto
    with assms(3) have "\<forall>c \<in> set p. \<not> py_isspace c"
      by (auto simp: break_long_word_concat)
    moreover from break_long_word_nonempty [OF assms(1,2)] p have "p \<noteq> []" by blast
    ultimately show ?thesis by (simp add: word_visible)
  qed
  then show ?thesis by (simp add: visible_append)
qed

lemma wrap_words_nonblank:
  assumes "1 \<le> m"
    and "\<forall>w \<in> set ws. w \<noteq> [] \<and> (\<forall>c \<in> set w. \<not> py_isspace c)"
    and "\<forall>l \<in> set wr. visible l \<noteq> []"
    and "\<forall>w \<in> set cl. w \<noteq> [] \<and> (\<forall>c \<in> set w. \<not> py_isspace c)"
    and "cl = [] \<longrightarrow> n \<le> 0"
  shows "case wrap_words ind m ws (wr, cl, n) of
           (wr', cl', n') \<Rightarrow>
             (\<forall>l \<in> set wr'. visible l \<noteq> []) \<and>
             (\<forall>w \<in> set cl'. w \<noteq> [] \<and> (\<forall>c \<in> set w. \<not> py_isspace c))"
  using assms(2-)
proof (induction ws arbitrary: wr cl n)
  case Nil
  then show ?case by simp
next
  case (Cons w ws)
  from Cons.prems(1) have w: "w \<noteq> []" "\<forall>c \<in> set w. \<not> py_isspace c"
    and ws: "\<forall>w \<in> set ws. w \<noteq> [] \<and> (\<forall>c \<in> set w. \<not> py_isspace c)"
    by simp_all
  have flushed: "\<forall>l \<in> set (wr @ [ind @ py_join '' '' cl]). visible l \<noteq> []" if "cl \<noteq> []"
    using joined_nonblank [OF that Cons.prems(3)] Cons.prems(2) by simp
  show ?case
  proof (cases "int (length w) > m")
    case True
    let ?parts = "map (\<lambda>part. ind @ part) (break_long_word w m)"
    note pn = parts_nonblank [OF assms(1) w, of ind]
    show ?thesis
    proof (cases "cl = []")
      case True
      have "\<forall>l \<in> set (wr @ ?parts). visible l \<noteq> []"
        using Cons.prems(2) pn by auto
      from Cons.IH [OF ws this, of "[]" n] True Cons.prems(4) \<open>int (length w) > m\<close>
      show ?thesis by simp
    next
      case False
      have "\<forall>l \<in> set ((wr @ [ind @ py_join '' '' cl]) @ ?parts). visible l \<noteq> []"
        using flushed [OF False] pn by auto
      from Cons.IH [OF ws this, of "[]" 0] False \<open>int (length w) > m\<close>
      show ?thesis by simp
    qed
  next
    case False
    show ?thesis
    proof (cases "n + int (length w) + (if cl \<noteq> [] then 1 else 0) > m")
      case True
      with False Cons.prems(4) have ne: "cl \<noteq> []" by (cases "cl = []") auto
      have "\<forall>w' \<in> set [w]. w' \<noteq> [] \<and> (\<forall>c \<in> set w'. \<not> py_isspace c)"
        using w by simp
      from Cons.IH [OF ws flushed [OF ne] this, of "int (length w)"] True False
      show ?thesis by simp
    next
      case over: False
      have "\<forall>w' \<in> set (cl @ [w]). w' \<noteq> [] \<and> (\<forall>c \<in> set w'. \<not> py_isspace c)"
        using w Cons.prems(3) by simp
      from Cons.IH [OF ws Cons.prems(2) this, of "n + int (length w) + 1"] over False
      show ?thesis by simp
    qed
  qed
qed

lemma indent_length:
  "int (length line) - int (length (py_lstrip line)) = int (length (takeWhile py_isspace line))"
proof -
  have "length (takeWhile py_isspace line) + length (dropWhile py_isspace line) = length line"
    by (metis length_append takeWhile_dropWhile_id)
  then show ?thesis by (simp add: py_lstrip_def)
qed

lemma deindented: "slice_from line (int (length (takeWhile py_isspace line))) = py_lstrip line"
  by (simp add: slice_from_nat py_lstrip_def dropWhile_eq_drop)

lemma visible_lstrip: "visible (py_lstrip line) = visible line"
proof -
  have "visible (takeWhile py_isspace line) = []"
    by (induction line) (simp_all add: visible_def)
  then have "visible (takeWhile py_isspace line @ dropWhile py_isspace line) =
      visible (dropWhile py_isspace line)"
    by (simp only: visible_append) simp
  then show ?thesis by (simp add: py_lstrip_def)
qed

lemma wrapped_result:
  assumes "\<not> int (length line) \<le> width" and "py_strip line \<noteq> []"
    and "py_split (py_lstrip line) \<noteq> []"
  shows "wrap_uncached line width =
     (case wrap_words (replicate (length (takeWhile py_isspace line)) (CHR '' ''))
             (width - int (length (takeWhile py_isspace line)))
             (py_split (py_lstrip line)) ([], [], 0) of
        (wrapped, current_line, current_length) \<Rightarrow>
          if current_line \<noteq> []
          then wrapped @ [replicate (length (takeWhile py_isspace line)) (CHR '' '') @
                          py_join '' '' current_line]
          else wrapped)"
  using assms by (simp add: wrap_uncached_def indent_length deindented Let_def split: prod.split)

lemma unwrapped_result:
  assumes "int (length line) \<le> width \<or> py_strip line = [] \<or> py_split (py_lstrip line) = []"
  shows "wrap_uncached line width = [line]"
  using assms by (auto simp: wrap_uncached_def indent_length deindented Let_def)

lemma wrap_uncached_visible: "visible (concat (wrap_uncached line width)) = visible line"
proof (cases "int (length line) \<le> width \<or> py_strip line = [] \<or> py_split (py_lstrip line) = []")
  case True
  then show ?thesis by (simp add: unwrapped_result)
next
  case False
  let ?ind = "replicate (length (takeWhile py_isspace line)) (CHR '' '')"
  let ?m = "width - int (length (takeWhile py_isspace line))"
  let ?words = "py_split (py_lstrip line)"
  obtain wr cl n where r: "wrap_words ?ind ?m ?words ([], [], 0) = (wr, cl, n)"
    by (cases "wrap_words ?ind ?m ?words ([], [], 0)") auto
  from wrap_words_visible [of ?ind ?m ?words "[]" "[]" 0] r
  have "visible (concat wr) @ visible (concat cl) = visible (concat ?words)"
    by (simp add: visible_replicate_space visible_Nil)
  also have "\<dots> = visible line"
    by (simp add: py_split_def split_from_visible visible_lstrip)
  finally have v: "visible (concat wr) @ visible (concat cl) = visible line" .
  from False have "wrap_uncached line width =
      (if cl \<noteq> [] then wr @ [?ind @ py_join '' '' cl] else wr)"
    by (simp add: wrapped_result r)
  then show ?thesis
    using v by (auto simp: visible_append visible_replicate_space py_join_visible visible_Nil)
qed

lemma wrap_uncached_nonblank:
  assumes "visible line \<noteq> []"
    and "int (length line) - int (length (py_lstrip line)) < width"
  shows "\<forall>l \<in> set (wrap_uncached line width). visible l \<noteq> []"
proof (cases "int (length line) \<le> width \<or> py_strip line = [] \<or> py_split (py_lstrip line) = []")
  case True
  with assms(1) show ?thesis by (simp add: unwrapped_result)
next
  case False
  let ?ind = "replicate (length (takeWhile py_isspace line)) (CHR '' '')"
  let ?m = "width - int (length (takeWhile py_isspace line))"
  let ?words = "py_split (py_lstrip line)"
  obtain wr cl n where r: "wrap_words ?ind ?m ?words ([], [], 0) = (wr, cl, n)"
    by (cases "wrap_words ?ind ?m ?words ([], [], 0)") auto
  have m: "1 \<le> ?m" using assms(2) by (simp add: indent_length)
  have words: "\<forall>w \<in> set ?words. w \<noteq> [] \<and> (\<forall>c \<in> set w. \<not> py_isspace c)"
    unfolding py_split_def by (rule split_from_words) simp
  from wrap_words_nonblank [OF m words, of "[]" "[]" 0 ?ind] r
  have wr: "\<forall>l \<in> set wr. visible l \<noteq> []"
    and cl: "\<forall>w \<in> set cl. w \<noteq> [] \<and> (\<forall>c \<in> set w. \<not> py_isspace c)"
    by simp_all
  from False have "wrap_uncached line width =
      (if cl \<noteq> [] then wr @ [?ind @ py_join '' '' cl] else wr)"
    by (simp add: wrapped_result r)
  then show ?thesis
    using wr joined_nonblank [OF _ cl, of ?ind] by auto
qed

lemma wrap_line_cached:
  assumes "cache_correct cache"
  shows "fst (wrap_line cache line width) = wrap_uncached line width"
    and "cache_correct (snd (wrap_line cache line width))"
proof -
  show "fst (wrap_line cache line width) = wrap_uncached line width"
  proof (cases "map_of cache (line, width)")
    case None
    then show ?thesis by (simp add: wrap_line_def Let_def)
  next
    case (Some r)
    then have "((line, width), r) \<in> set cache" by (rule map_of_SomeD)
    with assms have "r = wrap_uncached line width"
      by (auto simp: cache_correct_def list_all_iff)
    with Some show ?thesis by (simp add: wrap_line_def)
  qed
  have "cache_correct (tl cache)"
    using assms by (cases cache) (simp_all add: cache_correct_def)
  with assms show "cache_correct (snd (wrap_line cache line width))"
    by (cases "map_of cache (line, width)")
       (simp_all add: wrap_line_def Let_def cache_correct_def)
qed

lemma cache_correct_Nil: "cache_correct []"
  by (simp add: cache_correct_def)

lemma content_line_map_constant:
  "\<forall>l \<in> set ls. leading_spaces_only l \<Longrightarrow> content_line_map ls k = replicate (length ls) k"
  by (induction ls arbitrary: k) simp_all

section \<open>Claims about the display mapping\<close>

text \<open>
  Claim C3, as amended. For every line and width, and every cache whose entries are results
  of \<open>wrap_line\<close>: the wrapped lines are those computed with an empty cache, and the cache
  stays such a cache; the characters of the wrapped lines that are not white space are
  those of the line, none dropped, none added, in the same order; and when the line has a
  character that is not white space and the width exceeds the indentation, every wrapped
  line has such a character. White space itself is not kept: between words it becomes one
  space, and at a break it is dropped.
\<close>

theorem wrap_line_keeps_visible_text:
  assumes "cache_correct cache"
  shows "fst (wrap_line cache line width) = fst (wrap_line [] line width) \<and>
     cache_correct (snd (wrap_line cache line width)) \<and>
     visible (concat (fst (wrap_line cache line width))) = visible line \<and>
     (visible line \<noteq> [] \<and> int (length line) - int (length (py_lstrip line)) < width \<longrightarrow>
        (\<forall>l \<in> set (fst (wrap_line cache line width)). visible l \<noteq> []))"
  using wrap_line_cached [OF assms, of line width] wrap_line_cached(1) [OF cache_correct_Nil, of line width]
    wrap_uncached_visible [of line width] wrap_uncached_nonblank [of line width]
  by simp

theorem wrap_line_keeps_visible_text_witness:
  "cache_correct [((''aaa bbb'', 3), [''aaa'', ''bbb''])] \<and>
   visible ''aaa bbb'' \<noteq> [] \<and>
   int (length ''aaa bbb'') - int (length (py_lstrip ''aaa bbb'')) < 3 \<and>
   fst (wrap_line [((''aaa bbb'', 3), [''aaa'', ''bbb''])] ''aaa bbb'' 3) =
     fst (wrap_line [] ''aaa bbb'' 3) \<and>
   visible (concat (fst (wrap_line [((''aaa bbb'', 3), [''aaa'', ''bbb''])] ''aaa bbb'' 3))) =
     visible ''aaa bbb'' \<and>
   list_all (\<lambda>l. visible l \<noteq> [])
     (fst (wrap_line [((''aaa bbb'', 3), [''aaa'', ''bbb''])] ''aaa bbb'' 3))"
proof -
  have c: "cache_correct [((''aaa bbb'', 3), [''aaa'', ''bbb''])]"
    by code_simp
  have v: "visible ''aaa bbb'' \<noteq> []"
    by code_simp
  have i: "int (length ''aaa bbb'') - int (length (py_lstrip ''aaa bbb'')) < 3"
    by code_simp
  from wrap_line_keeps_visible_text [OF c, of "''aaa bbb''" 3] c v i show ?thesis
    unfolding list_all_iff by blast
qed

text \<open>
  The claim as stated fails: the white space at which a line is broken is dropped, so
  the wrapped lines do not concatenate to the text; and a width that does not exceed the
  indentation gives a line that holds the indentation alone.
\<close>

theorem wrap_line_rejoin_counterexample:
  "fst (wrap_line [] ''aaa bbb'' 3) = [''aaa'', ''bbb''] \<and>
   concat [''aaa'', ''bbb''] \<noteq> ''aaa bbb'' \<and>
   fst (wrap_line [] '' ab'' 1) = ['' '', '' a'', '' b'']"
  by code_simp

text \<open>
  Claim C2 does not hold of the code. \<open>get_content_line_index\<close> advances its counter only
  after a display line whose leading white space holds a character other than a space.
  So for display lines without such a line it answers 0 at every valid index \<open>d\<close>, and
  \<open>get_display_line_index\<close> at row 0 is 0: the round trip gives 0, not \<open>d\<close>.
\<close>

theorem get_content_line_index_is_zero:
  assumes "\<forall>l \<in> set dls. leading_spaces_only l" and "0 \<le> d" and "d < int (length dls)"
  shows "get_content_line_index dls d = Some 0 \<and>
     get_display_line_index cache content0 0 width = Some (0, cache)"
  using assms
  by (simp add: get_content_line_index_def content_line_map_constant py_index_nat
      get_display_line_index_def)

theorem get_content_line_index_is_zero_witness:
  "list_all leading_spaces_only (fst (display_lines [] [''a'', ''b''] 80)) \<and>
   (0 :: int) \<le> 1 \<and> 1 < int (length (fst (display_lines [] [''a'', ''b''] 80))) \<and>
   get_content_line_index (fst (display_lines [] [''a'', ''b''] 80)) 1 = Some 0 \<and>
   get_display_line_index [] [''a'', ''b''] 0 80 = Some (0, [])"
proof -
  have l: "list_all leading_spaces_only (fst (display_lines [] [''a'', ''b''] 80))"
    by code_simp
  then have l': "\<forall>l \<in> set (fst (display_lines [] [''a'', ''b''] 80)). leading_spaces_only l"
    by (simp add: list_all_iff)
  have d: "(0 :: int) \<le> 1" "1 < int (length (fst (display_lines [] [''a'', ''b''] 80)))"
    by code_simp+
  from get_content_line_index_is_zero [OF l' d, of "[]" "[''a'', ''b'']" 80] l d show ?thesis
    by blast
qed

end
